theory Spec2Isabelle
  imports Complex_Main "HOL-Library.Multiset"
begin

section \<open>UniformSpread: arrays, kernels, lattice\<close>

text \<open>
  The embedding follows \<^verbatim>\<open>src/pyxu/operator/linop/spread.py\<close> and, for the
  \<^verbatim>\<open>enforce_precision\<close> decorator of \<^verbatim>\<open>apply\<close> and \<^verbatim>\<open>adjoint\<close>,
  \<^verbatim>\<open>src/pycsou/runtime.py\<close>.
  Floating-point numbers are read as exact reals: rounding, NaN and infinities are outside
  the embedding, so every equality of values below is an equality of exact arithmetic.  The
  one place where the arithmetic is a parameter is the cluster metadata
  (\<open>build_info_fl\<close>): the integer windows stored there depend on how the products are
  rounded; the operator itself is built with the exact operations.
  Only in-memory (NUMPY) arrays are modelled; the DASK (blockwise) and CUPY paths rest on
  an external array substrate and are left out, and the arrays given to \<^verbatim>\<open>apply\<close>
  and \<^verbatim>\<open>adjoint\<close> carry no stacking dimensions.
  The runtime precision \<^verbatim>\<open>getPrecision()\<close>, a global of the library, is an explicit
  argument of construction and of every call.
\<close>

text \<open>The floating-point widths \<^verbatim>\<open>Width\<close> of \<^verbatim>\<open>runtime.py\<close>.\<close>

datatype dtype = Half | Single | Double | Quad

text \<open>An n-dimensional array: its dtype, its shape and the value stored at each multi-index.\<close>

record ndarray =
  dtype :: dtype
  shape :: "nat list"
  elems :: "nat list \<Rightarrow> real"

definition ndim :: "ndarray \<Rightarrow> nat" where
  "ndim a = length (shape a)"

text \<open>\<^verbatim>\<open>np.ndindex(shape)\<close>: every multi-index below \<open>shape\<close>, in row-major order.\<close>

fun ndindex :: "nat list \<Rightarrow> nat list list" where
  "ndindex [] = [[]]"
| "ndindex (n # ns) = concat (map (\<lambda>i. map ((#) i) (ndindex ns)) [0..<n])"

definition zeros :: "nat list \<Rightarrow> dtype \<Rightarrow> ndarray" where
  "zeros sh dt = \<lparr>dtype = dt, shape = sh, elems = (\<lambda>_. 0)\<rparr>"

text \<open>\<^verbatim>\<open>arr.astype(dtype)\<close>: the array re-tagged (values are exact reals here).\<close>

definition astype :: "ndarray \<Rightarrow> dtype \<Rightarrow> ndarray" where
  "astype arr dt = arr\<lparr>dtype := dt\<rparr>"

text \<open>\<^verbatim>\<open>x[:, np.newaxis]\<close> on a rank-1 array: shape (M,) becomes (M, 1).\<close>

definition newaxis :: "ndarray \<Rightarrow> ndarray" where
  "newaxis a = a\<lparr>shape := shape a @ [1], elems := (\<lambda>idx. elems a (butlast idx))\<rparr>"

text \<open>The rows of an (M, D) array.\<close>

definition rows_of :: "ndarray \<Rightarrow> real list list" where
  "rows_of a = map (\<lambda>m. map (\<lambda>d. elems a [m, d]) [0..<shape a ! 1]) [0..<shape a ! 0]"

text \<open>An axial kernel: the ufunc \<^verbatim>\<open>k(...)\<close> and its \<^verbatim>\<open>k.support()\<close>.\<close>

record kernel_op =
  call :: "real \<Rightarrow> real"
  support :: real

text \<open>The lattice specifier \<^verbatim>\<open>z\<close>: a scalar entry is a one-element list.\<close>

record lattice_spec =
  start :: "real list"
  stop :: "real list"
  num :: "int list"

text \<open>The keyword arguments as the caller gives them (\<open>None\<close>: not given) and in canonical form.
  The number of workers may itself be \<^verbatim>\<open>None\<close> (the default of the thread pool).\<close>

record kwargs_in =
  max_cluster_size_in :: "int option"
  max_window_ratio_in :: "real option"
  workers_in :: "int option option"

record kwargs =
  max_cluster_size :: int
  max_window_ratio :: real
  workers :: "int option"

record cluster_info =
  x_idx :: "nat list"
  z_anchor :: "int list"
  z_num :: "int list"

record uniform_spread =
  op_x :: ndarray
  op_z :: lattice_spec
  op_kernel :: "kernel_op list"
  op_enable_warnings :: bool
  op_kwargs :: kwargs
  op_cl_info :: "(nat \<times> cluster_info) list"

datatype error = AssertionError | SyntaxError | KeyError | ValueError

text \<open>
  What construction takes from its surroundings: the runtime precision
  (\<^verbatim>\<open>getPrecision().value\<close>) and the initialiser of the base class,
  \<^verbatim>\<open>super().__init__(dim_shape=M, codim_shape=z["num"])\<close>.  The base class is not among
  the source files: its initialiser is a parameter, \<open>None\<close> when it accepts the two shapes
  and the error it raises otherwise.
\<close>

record env =
  precision :: dtype
  linop_init :: "nat \<Rightarrow> int list \<Rightarrow> error option"

datatype warning = PrecisionWarning

definition dim_size :: "uniform_spread \<Rightarrow> nat" where
  "dim_size op = shape (op_x op) ! 0"

definition codim_rank :: "uniform_spread \<Rightarrow> nat" where
  "codim_rank op = length (num (op_z op))"

definition codim_shape :: "uniform_spread \<Rightarrow> nat list" where
  "codim_shape op = map nat (num (op_z op))"

section \<open>Clustering helpers\<close>

text \<open>
  Modelled from the spec: \<^verbatim>\<open>pyxu.math.cluster.grid_cluster\<close> is not among the
  source files.  Spec 4.2 step 2: ``assign remaining points to a regular grid of cells sized
  \<open>2s\<cdot>max_window_ratio\<close>; each non-empty cell is a candidate cluster''.  The result maps
  a cluster id to the indices (into \<open>x\<close>) of the points of one cell.
\<close>

definition cell_of :: "real list \<Rightarrow> real list \<Rightarrow> int list" where
  "cell_of bbox_dim p = map (\<lambda>(c, b). \<lfloor>c / b\<rfloor>) (zip p bbox_dim)"

definition grid_cluster :: "real list list \<Rightarrow> real list \<Rightarrow> (nat \<times> nat list) list" where
  "grid_cluster x bbox_dim =
     (let cells = map (cell_of bbox_dim) x
      in enumerate 0 (map (\<lambda>c. filter (\<lambda>i. cells ! i = c) [0..<length x]) (remdups cells)))"

text \<open>
  Modelled from the spec: \<^verbatim>\<open>pyxu.math.cluster.bisect_cluster\<close> is not among the
  source files.  Spec 4.2 step 3: ``any cluster exceeding \<open>max_cluster_size\<close> points is
  split along its longest axis at the median, recursively, until all clusters satisfy the
  cap''.  The split orders the cluster along the axis and cuts it at the middle position; a
  cluster of fewer than two points is never split.  The cells of the grid are counted from
  the origin.
\<close>

definition ptp :: "real list list \<Rightarrow> nat \<Rightarrow> real" where
  "ptp pts d = Max (set (map (\<lambda>p. p ! d) pts)) - Min (set (map (\<lambda>p. p ! d) pts))"

fun argmax :: "real list \<Rightarrow> nat" where
  "argmax [] = 0"
| "argmax [a] = 0"
| "argmax (a # b # bs) = (let j = Suc (argmax (b # bs)) in if (b # bs) ! (j - 1) > a then j else 0)"

definition longest_axis :: "real list list \<Rightarrow> nat" where
  "longest_axis pts = argmax (map (ptp pts) [0..<length (hd pts)])"

function bisect :: "real list list \<Rightarrow> nat \<Rightarrow> nat list \<Rightarrow> nat list list" where
  "bisect x N_max idx =
     (if length idx \<le> N_max \<or> length idx < 2 then [idx]
      else let d = longest_axis (map (\<lambda>i. x ! i) idx);
               srt = sort_key (\<lambda>i. x ! i ! d) idx;
               h = length idx div 2
           in bisect x N_max (take h srt) @ bisect x N_max (drop h srt))"
  by pat_completeness auto
termination
  by (relation "measure (\<lambda>(x, N_max, idx). length idx)") auto

definition bisect_cluster ::
  "real list list \<Rightarrow> (nat \<times> nat list) list \<Rightarrow> int \<Rightarrow> (nat \<times> nat list) list" where
  "bisect_cluster x clusters N_max =
     enumerate 0 (concat (map (\<lambda>(c_idx, idx). bisect x (nat N_max) idx) clusters))"

section \<open>Construction\<close>

text \<open>\<^verbatim>\<open>_as_seq(x, N)\<close>: a one-element sequence is broadcast to \<open>N\<close> entries; the
  length must then be \<open>N\<close>.  (The element conversion \<^verbatim>\<open>_type\<close> is the identity on
  values that already have the type.)\<close>

definition broadcast :: "'a list \<Rightarrow> nat \<Rightarrow> 'a list" where
  "broadcast x N = (if length x = 1 then concat (replicate N x) else x)"

definition as_seq :: "'a list \<Rightarrow> nat \<Rightarrow> error + 'a list" where
  "as_seq x N =
     (let x' = broadcast x N
      in if length x' = N then Inr x' else Inl AssertionError)"

text \<open>
  The floating-point operations of \<^verbatim>\<open>_build_info\<close>: subtraction, addition,
  multiplication, division, and the conversion of an integer to a float.  They are a
  parameter of the metadata (suffix \<open>_fl\<close>), so that what is stored can be stated for the
  rounded operations of the machine as well; \<open>exact_arith\<close> reads them as the operations
  of the reals, and the definitions without the suffix are the metadata under \<open>exact_arith\<close>.
\<close>

record arith =
  fsub :: "real \<Rightarrow> real \<Rightarrow> real"
  fadd :: "real \<Rightarrow> real \<Rightarrow> real"
  fmul :: "real \<Rightarrow> real \<Rightarrow> real"
  fdiv :: "real \<Rightarrow> real \<Rightarrow> real"
  fint :: "int \<Rightarrow> real"

definition exact_arith :: arith where
  "exact_arith = \<lparr>fsub = (\<lambda>a b. a - b), fadd = (\<lambda>a b. a + b), fmul = (\<lambda>a b. a * b),
                  fdiv = (\<lambda>a b. a / b), fint = real_of_int\<rparr>"

text \<open>The support points that can reach the lattice:
  \<^verbatim>\<open>np.all(alpha - s <= x, axis=1) & np.all(x <= beta + s, axis=1)\<close>, for one row.\<close>

definition is_active_fl :: "arith \<Rightarrow> real list \<Rightarrow> real list \<Rightarrow> real list \<Rightarrow> real list \<Rightarrow> bool" where
  "is_active_fl ar alpha beta s p =
     (list_all (\<lambda>d. fsub ar (alpha ! d) (s ! d) \<le> p ! d) [0..<length p] \<and>
      list_all (\<lambda>d. p ! d \<le> fadd ar (beta ! d) (s ! d)) [0..<length p])"

definition is_active :: "real list \<Rightarrow> real list \<Rightarrow> real list \<Rightarrow> real list \<Rightarrow> bool" where
  "is_active = is_active_fl exact_arith"

text \<open>\<^verbatim>\<open>active2global = np.flatnonzero(active)\<close>: the indices of the active rows.\<close>

definition active_indices_fl ::
  "arith \<Rightarrow> real list list \<Rightarrow> lattice_spec \<Rightarrow> kernel_op list \<Rightarrow> nat list" where
  "active_indices_fl ar x z kern =
     (let s = map support kern;
          active = map (is_active_fl ar (start z) (stop z) s) x
      in filter (\<lambda>i. active ! i) [0..<length x])"

definition active_indices :: "real list list \<Rightarrow> lattice_spec \<Rightarrow> kernel_op list \<Rightarrow> nat list" where
  "active_indices = active_indices_fl exact_arith"

text \<open>
  The sub-grid of one cluster on axis \<open>d\<close> (steps 1 to 3 of the loop of
  \<^verbatim>\<open>_build_info\<close>), as the pair \<open>(LL_idx[d], UR_idx[d])\<close> after clipping:
  \<^verbatim>\<open>LL = _x.min(axis=0) - s\<close>, \<^verbatim>\<open>UR = _x.max(axis=0) + s\<close>,
  \<^verbatim>\<open>ratio = N - 1.0; ratio[N > 1] /= (beta - alpha)[N > 1]\<close>,
  \<^verbatim>\<open>LL_idx = np.floor((LL - alpha) * ratio)\<close>, \<^verbatim>\<open>UR_idx = np.ceil((UR - alpha) * ratio)\<close>,
  \<^verbatim>\<open>LL_idx = np.fmax(0, LL_idx)\<close>, \<^verbatim>\<open>UR_idx = np.fmin(UR_idx, N - 1)\<close>.
  \<open>N\<close> is an integer array: \<^verbatim>\<open>N - 1.0\<close> converts it to floats first, and so does
  \<^verbatim>\<open>np.fmin\<close> with \<^verbatim>\<open>N - 1\<close>.  The results of \<^verbatim>\<open>floor\<close>, \<^verbatim>\<open>ceil\<close>,
  \<^verbatim>\<open>fmax\<close> and \<^verbatim>\<open>fmin\<close> are floats with integer values, which
  \<^verbatim>\<open>.astype(int)\<close> reads as integers.
\<close>

definition window_idx_fl ::
  "arith \<Rightarrow> lattice_spec \<Rightarrow> real list \<Rightarrow> real list list \<Rightarrow> nat \<Rightarrow> int \<times> int" where
  "window_idx_fl ar z s xq d =
     (let alpha = start z ! d;
          beta = stop z ! d;
          N = num z ! d;
          LL = fsub ar (Min (set (map (\<lambda>p. p ! d) xq))) (s ! d);
          UR = fadd ar (Max (set (map (\<lambda>p. p ! d) xq))) (s ! d);
          ratio = fsub ar (fint ar N) 1;
          ratio = (if N > 1 then fdiv ar ratio (fsub ar beta alpha) else ratio);
          LL_idx = \<lfloor>fmul ar (fsub ar LL alpha) ratio\<rfloor>;
          UR_idx = \<lceil>fmul ar (fsub ar UR alpha) ratio\<rceil>
      in (max 0 LL_idx, min UR_idx \<lfloor>fint ar (N - 1)\<rfloor>))"

definition window_idx :: "lattice_spec \<Rightarrow> real list \<Rightarrow> real list list \<Rightarrow> nat \<Rightarrow> int \<times> int" where
  "window_idx = window_idx_fl exact_arith"

text \<open>\<^verbatim>\<open>_build_info\<close>: the cluster metadata.\<close>

definition build_info_fl ::
  "arith \<Rightarrow> real list list \<Rightarrow> lattice_spec \<Rightarrow> kernel_op list \<Rightarrow> kwargs \<Rightarrow>
     (nat \<times> cluster_info) list" where
  "build_info_fl ar x z kern kw =
     (let s = map support kern;
          D = length s;
          active2global = active_indices_fl ar x z kern;
          x = map (\<lambda>i. x ! i) active2global
      in if length x = 0 then []
         else
           let bbox_dim = map (\<lambda>sd. fmul ar (fmul ar 2 sd) (max_window_ratio kw)) s;
               clusters = grid_cluster x bbox_dim;
               clusters = bisect_cluster x clusters (max_cluster_size kw)
           in map (\<lambda>(c_idx, xi).
                let xq = map (\<lambda>i. x ! i) xi;
                    LU = map (window_idx_fl ar z s xq) [0..<D]
                in (c_idx,
                    \<lparr>x_idx = map (\<lambda>i. active2global ! i) xi,
                     z_anchor = map fst LU,
                     z_num = map (\<lambda>(LL_idx, UR_idx). UR_idx - LL_idx + 1) LU\<rparr>)) clusters)"

definition build_info ::
  "real list list \<Rightarrow> lattice_spec \<Rightarrow> kernel_op list \<Rightarrow> kwargs \<Rightarrow> (nat \<times> cluster_info) list" where
  "build_info = build_info_fl exact_arith"

text \<open>The per-axis check of the lattice in \<^verbatim>\<open>__init__\<close>.\<close>

definition lattice_axis_ok :: "real \<Rightarrow> real \<Rightarrow> int \<Rightarrow> bool" where
  "lattice_axis_ok alpha beta N =
     (alpha \<le> beta \<and> (if alpha < beta then N \<ge> 1 else N = 1))"

text \<open>The keyword arguments with their defaults: \<^verbatim>\<open>kwargs.get(name, default)\<close>.\<close>

definition canonical_kwargs :: "kwargs_in \<Rightarrow> kwargs" where
  "canonical_kwargs kw =
     \<lparr>max_cluster_size = (case max_cluster_size_in kw of None \<Rightarrow> 10000 | Some c \<Rightarrow> c),
      max_window_ratio = (case max_window_ratio_in kw of None \<Rightarrow> 100 | Some r \<Rightarrow> r),
      workers = (case workers_in kw of None \<Rightarrow> Some 2 | Some n \<Rightarrow> n)\<rparr>"

text \<open>\<^verbatim>\<open>if x.ndim == 1: x = x[:, np.newaxis]\<close>.\<close>

definition points_2d :: "ndarray \<Rightarrow> ndarray" where
  "points_2d x = (if ndim x = 1 then newaxis x else x)"

text \<open>
  Modelled from the spec: \<^verbatim>\<open>pxrt.coerce\<close> is not among the source files.  Spec 9: the
  floating-point width is ``an explicit configuration value threaded through construction'';
  \<^verbatim>\<open>coerce\<close> casts the points to it, as \<^verbatim>\<open>enforce_precision\<close> casts its argument.
\<close>

definition coerce :: "dtype \<Rightarrow> ndarray \<Rightarrow> ndarray" where
  "coerce prec x = astype x prec"

text \<open>
  \<^verbatim>\<open>__init__\<close> for an in-memory array \<open>x\<close>.  Every failed \<^verbatim>\<open>assert\<close> is
  \<open>Inl AssertionError\<close>.  \<^verbatim>\<open>_gen_code\<close> looks the dtype of the coerced points up in a
  table that holds the single and the double width only: \<open>Inl KeyError\<close> for another
  width.  For \<open>D = 0\<close> the generated kernel source reads \<^verbatim>\<open>support = (,)\<close>, which
  \<^verbatim>\<open>exec\<close> rejects: \<open>Inl SyntaxError\<close>.
\<close>

definition init ::
  "env \<Rightarrow> ndarray \<Rightarrow> lattice_spec \<Rightarrow> kernel_op list \<Rightarrow> bool \<Rightarrow> kwargs_in \<Rightarrow>
     error + uniform_spread" where
  "init env x z kern enable_warnings kw =
     (if ndim x \<notin> {1, 2} then Inl AssertionError
      else
        let x = points_2d x;
            M = shape x ! 0;
            D = shape x ! 1
        in (case as_seq kern D of Inl e \<Rightarrow> Inl e | Inr kern \<Rightarrow>
           (if \<not> list_all (\<lambda>k. support k > 0) kern then Inl AssertionError
            else
           (case as_seq (start z) D of Inl e \<Rightarrow> Inl e | Inr z_start \<Rightarrow>
           (case as_seq (stop z) D of Inl e \<Rightarrow> Inl e | Inr z_stop \<Rightarrow>
           (case as_seq (num z) D of Inl e \<Rightarrow> Inl e | Inr z_count \<Rightarrow>
           (let z = \<lparr>start = z_start, stop = z_stop, num = z_count\<rparr> in
            if \<not> list_all (\<lambda>d. lattice_axis_ok (start z ! d) (stop z ! d) (num z ! d)) [0..<D]
            then Inl AssertionError
            else
              let kwargs = canonical_kwargs kw
              in if \<not> max_cluster_size kwargs > 0 then Inl AssertionError
                 else if \<not> max_window_ratio kwargs \<ge> 3 then Inl AssertionError
                 else
                 (case linop_init env M (num z) of Some e \<Rightarrow> Inl e | None \<Rightarrow>
                 (let x = coerce (precision env) x
                  in if dtype x \<notin> {Single, Double} then Inl KeyError
                     else if D = 0 then Inl SyntaxError
                     else Inr \<lparr>op_x = x, op_z = z, op_kernel = kern,
                               op_enable_warnings = enable_warnings, op_kwargs = kwargs,
                               op_cl_info = build_info (rows_of x) z kern kwargs\<rparr>)))))))))"

section \<open>Lattice nodes and compiled kernels\<close>

text \<open>\<^verbatim>\<open>np.arange(N)[slice(a, b)]\<close> with Python's slice rules (negative bounds count from
  the end, bounds are clipped to \<open>[0, N]\<close>); \<open>None\<close> is \<^verbatim>\<open>slice(None)\<close>.\<close>

definition py_slice :: "nat \<Rightarrow> int \<Rightarrow> int \<Rightarrow> nat list" where
  "py_slice N a b =
     (let n = int N;
          lo = (if a < 0 then max 0 (a + n) else min a n);
          hi = (if b < 0 then max 0 (b + n) else min b n)
      in map nat [lo..hi - 1])"

definition apply_slice :: "nat \<Rightarrow> (int \<times> int) option \<Rightarrow> nat list" where
  "apply_slice N sl = (case sl of None \<Rightarrow> [0..<N] | Some (a, b) \<Rightarrow> py_slice N a b)"

text \<open>\<^verbatim>\<open>_lattice(roi, flatten=True)\<close>: the 1D lattice nodes of every axis.\<close>

definition lattice :: "lattice_spec \<Rightarrow> (int \<times> int) option list \<Rightarrow> real list list" where
  "lattice z roi =
     map (\<lambda>d. let alpha = start z ! d;
                  beta = stop z ! d;
                  N = num z ! d;
                  step = (if N = 1 then 0 else (beta - alpha) / real_of_int (N - 1))
              in map (\<lambda>k. alpha + real k * step) (apply_slice (nat N) (roi ! d)))
       [0..<length (num z)]"

text \<open>\<^verbatim>\<open>find_bounds\<close>: the loop over \<open>i\<close>, then the function.\<close>

function find_bounds_loop ::
  "real list \<Rightarrow> nat \<Rightarrow> nat \<times> bool \<Rightarrow> nat \<times> bool \<Rightarrow> nat \<times> nat" where
  "find_bounds_loop x i (a, a_found) (b, b_found) =
     (if i < length x then
        let N = length x;
            lhs = x ! i;
            rhs = x ! (N - 1 - i);
            (a, a_found) = (if \<not> a_found \<and> \<bar>lhs\<bar> > 0 then (i, True) else (a, a_found));
            (b, b_found) = (if \<not> b_found \<and> \<bar>rhs\<bar> > 0 then (N - i, True) else (b, b_found))
        in if a_found \<and> b_found then (a, b)
           else find_bounds_loop x (i + 1) (a, a_found) (b, b_found)
      else (a, b))"
  by pat_completeness auto
termination
  by (relation "measure (\<lambda>(x, i, a, b). length x - i)") auto

definition find_bounds :: "real list \<Rightarrow> nat \<times> nat" where
  "find_bounds x = find_bounds_loop x 0 (length x, False) (length x, False)"

text \<open>The kernel weight of one point at one sub-grid index:
  \<^verbatim>\<open>k = 1; for d in range(D): k *= kernel[m, d, idx[d]]\<close>.\<close>

definition kernel_weight :: "real list list \<Rightarrow> nat list \<Rightarrow> real" where
  "kernel_weight km idx = fold (\<lambda>d k. k * km ! d ! (idx ! d)) [0..<length idx] 1"

text \<open>The index set one point visits: \<open>lb + offset\<close> for \<open>offset\<close> in
  \<^verbatim>\<open>np.ndindex(ub - lb)\<close>.\<close>

definition visited :: "real list list \<Rightarrow> nat list \<Rightarrow> nat list list" where
  "visited km S =
     (let D = length S;
          bnd = map (\<lambda>d. find_bounds (take (S ! d) (km ! d))) [0..<D];
          lb = map fst bnd;
          ub = map snd bnd;
          support = map (\<lambda>d. ub ! d - lb ! d) [0..<D]
      in map (\<lambda>offset. map (\<lambda>d. lb ! d + offset ! d) [0..<D]) (ndindex support))"

text \<open>\<^verbatim>\<open>f_spread\<close> and \<^verbatim>\<open>f_interpolate\<close> for one stacked row (\<open>Ns = 1\<close>):
  \<open>w\<close> has shape (M,), \<open>kernel\<close> shape (M, D, S_max), the sub-grid shape \<open>S\<close>.\<close>

definition f_spread ::
  "real list \<Rightarrow> real list list list \<Rightarrow> nat list \<Rightarrow> (nat list \<Rightarrow> real) \<Rightarrow> (nat list \<Rightarrow> real)" where
  "f_spread w kern S out =
     fold (\<lambda>m out.
             fold (\<lambda>idx out. let k = kernel_weight (kern ! m) idx
                             in out(idx := out idx + k * w ! m))
               (visited (kern ! m) S) out)
       [0..<length w] out"

definition f_interpolate ::
  "(nat list \<Rightarrow> real) \<Rightarrow> real list list list \<Rightarrow> nat list \<Rightarrow> nat \<Rightarrow> (nat \<Rightarrow> real) \<Rightarrow> (nat \<Rightarrow> real)" where
  "f_interpolate v kern S M out =
     fold (\<lambda>m out.
             fold (\<lambda>idx out. let k = kernel_weight (kern ! m) idx
                             in out(m := out m + k * v idx))
               (visited (kern ! m) S) out)
       [0..<M] out"

section \<open>Spreading and interpolation\<close>

text \<open>\<^verbatim>\<open>_cast_warn\<close>: the array handed on, and the warnings emitted.\<close>

definition cast_warn :: "uniform_spread \<Rightarrow> ndarray \<Rightarrow> ndarray \<times> warning list" where
  "cast_warn op arr =
     (if dtype arr = dtype (op_x op) then (arr, [])
      else (astype arr (dtype (op_x op)),
            if op_enable_warnings op then [PrecisionWarning] else []))"

text \<open>The region of interest of a cluster:
  \<^verbatim>\<open>[slice(n0, n0 + num) for (n0, num) in zip(z_anchor, z_num)]\<close>.\<close>

definition roi_of :: "cluster_info \<Rightarrow> (int \<times> int) option list" where
  "roi_of cl = map (\<lambda>(n0, n). Some (n0, n0 + n)) (zip (z_anchor cl) (z_num cl))"

text \<open>The lattice indices a region of interest selects on each axis.\<close>

definition roi_indices :: "uniform_spread \<Rightarrow> (int \<times> int) option list \<Rightarrow> nat list list" where
  "roi_indices op roi =
     map (\<lambda>d. apply_slice (codim_shape op ! d) (roi ! d)) [0..<codim_rank op]"

text \<open>The (Mq, D, S_max) array of 1D kernel weights:
  \<^verbatim>\<open>kernel[:, d, :S[d]] = self._kernel[d](lattice[d] - x[:, [d]])\<close> on a zero array.
  The assignment needs \<open>len(lattice[d]) = S[d]\<close>, which the metadata of
  \<^verbatim>\<open>_build_info\<close> guarantees (lemmas \<open>cluster_facts\<close> and \<open>cluster_lattice\<close> below).\<close>

definition kernel_weights ::
  "kernel_op list \<Rightarrow> real list list \<Rightarrow> real list list \<Rightarrow> nat list \<Rightarrow> real list list list" where
  "kernel_weights kern lat x S =
     map (\<lambda>p. map (\<lambda>d. map (\<lambda>zc. call (kern ! d) (zc - p ! d)) (lat ! d)
                         @ replicate (Max (set S) - S ! d) 0) [0..<length S]) x"

text \<open>The block shared by \<^verbatim>\<open>_spread\<close> and \<^verbatim>\<open>_interpolate\<close>: build the lattice
  mesh on the region of interest, sub-sample \<open>x\<close>, evaluate the 1D kernel weights.\<close>

definition cluster_kernel :: "uniform_spread \<Rightarrow> cluster_info \<Rightarrow> real list list list" where
  "cluster_kernel op cl =
     (let roi = roi_of cl;
          lat = lattice (op_z op) roi;
          xq = map (\<lambda>i. rows_of (op_x op) ! i) (x_idx cl);
          S = map nat (z_num cl)
      in kernel_weights (op_kernel op) lat xq S)"

text \<open>The global lattice index that \<^verbatim>\<open>[..., *roi]\<close> gives a sub-grid index.\<close>

definition roi_index :: "uniform_spread \<Rightarrow> cluster_info \<Rightarrow> nat list \<Rightarrow> nat list" where
  "roi_index op cl idx =
     (let ri = roi_indices op (roi_of cl)
      in map (\<lambda>d. ri ! d ! (idx ! d)) [0..<length (z_num cl)])"

text \<open>\<^verbatim>\<open>_spread\<close>: one cluster spread onto its sub-grid, then added to \<open>out\<close>
  (\<^verbatim>\<open>out[..., *roi] += v\<close>, entry by entry).  \<open>w\<close> has shape (M,).\<close>

definition spread :: "uniform_spread \<Rightarrow> ndarray \<Rightarrow> ndarray \<Rightarrow> cluster_info \<Rightarrow> ndarray" where
  "spread op w out cl =
     (let wq = map (\<lambda>i. elems w [i]) (x_idx cl);
          S = map nat (z_num cl);
          kern = cluster_kernel op cl;
          v = f_spread wq kern S (\<lambda>_. 0)
      in out\<lparr>elems :=
               fold (\<lambda>idx e. let g = roi_index op cl idx in e(g := e g + v idx))
                 (ndindex S) (elems out)\<rparr>)"

text \<open>\<^verbatim>\<open>_interpolate\<close>: the sub-grid of one cluster gathered onto its points, then
  \<^verbatim>\<open>out[..., x_idx] = w\<close>.  \<open>v\<close> has shape (N1,...,ND).\<close>

definition interpolate :: "uniform_spread \<Rightarrow> ndarray \<Rightarrow> ndarray \<Rightarrow> cluster_info \<Rightarrow> ndarray" where
  "interpolate op v out cl =
     (let S = map nat (z_num cl);
          vq = (\<lambda>idx. elems v (roi_index op cl idx));
          kern = cluster_kernel op cl;
          Mq = length (x_idx cl);
          w = f_interpolate vq kern S Mq (\<lambda>_. 0)
      in out\<lparr>elems :=
               fold (\<lambda>j e. e([x_idx cl ! j] := w j)) [0..<Mq] (elems out)\<rparr>)"

text \<open>The bodies of \<^verbatim>\<open>apply\<close> and \<^verbatim>\<open>adjoint\<close> (NUMPY branch).  The thread pool runs
  one task per cluster; the tasks are taken here in the order of the cluster map.  The result
  comes with the warnings emitted.\<close>

definition apply_body :: "uniform_spread \<Rightarrow> ndarray \<Rightarrow> ndarray \<times> warning list" where
  "apply_body op arr =
     (let (arr, ws) = cast_warn op arr;
          out = zeros (codim_shape op) (dtype arr)
      in (fold (\<lambda>(c_idx, cl) out. spread op arr out cl) (op_cl_info op) out, ws))"

definition adjoint_body :: "uniform_spread \<Rightarrow> ndarray \<Rightarrow> ndarray \<times> warning list" where
  "adjoint_body op arr =
     (let (arr, ws) = cast_warn op arr;
          out = zeros [dim_size op] (dtype arr)
      in (fold (\<lambda>(c_idx, cl) out. interpolate op arr out cl) (op_cl_info op) out, ws))"

text \<open>
  The decorator \<^verbatim>\<open>@enforce_precision(i="arr")\<close> of \<^verbatim>\<open>runtime.py\<close>, under the
  runtime precision \<open>prec\<close> (\<^verbatim>\<open>dtype = getPrecision().value\<close>): the argument is cast
  to \<open>prec\<close> before the function runs (\<^verbatim>\<open>func_args[name].astype(dtype, copy=False)\<close>),
  and the array it returns is cast to \<open>prec\<close> (\<^verbatim>\<open>o=True\<close>).
\<close>

definition enforce_precision ::
  "dtype \<Rightarrow> (ndarray \<Rightarrow> ndarray \<times> warning list) \<Rightarrow> ndarray \<Rightarrow> ndarray \<times> warning list" where
  "enforce_precision prec func arr =
     (let arr = astype arr prec;
          (out, ws) = func arr
      in (astype out prec, ws))"

text \<open>\<^verbatim>\<open>apply\<close> and \<^verbatim>\<open>adjoint\<close> as they are called: the bodies under the decorator.
  This is the array a call returns, with the warnings emitted.\<close>

definition apply_op :: "dtype \<Rightarrow> uniform_spread \<Rightarrow> ndarray \<Rightarrow> ndarray \<times> warning list" where
  "apply_op prec op arr = enforce_precision prec (apply_body op) arr"

definition adjoint_op :: "dtype \<Rightarrow> uniform_spread \<Rightarrow> ndarray \<Rightarrow> ndarray \<times> warning list" where
  "adjoint_op prec op arr = enforce_precision prec (adjoint_body op) arr"

text \<open>
  Whether a call returns: \<^verbatim>\<open>ThreadPoolExecutor(max_workers=workers)\<close> raises
  \<^verbatim>\<open>ValueError\<close> for \<open>workers \<le> 0\<close> (\<^verbatim>\<open>None\<close> is the default of the library).  The
  pool is created after \<^verbatim>\<open>_cast_warn\<close>, so the warning is emitted in either case.
\<close>

definition pool_ok :: "kwargs \<Rightarrow> bool" where
  "pool_ok kw = (case workers kw of None \<Rightarrow> True | Some n \<Rightarrow> n > 0)"

definition apply_call ::
  "dtype \<Rightarrow> uniform_spread \<Rightarrow> ndarray \<Rightarrow> (error + ndarray) \<times> warning list" where
  "apply_call prec op arr =
     (let (out, ws) = apply_op prec op arr
      in (if pool_ok (op_kwargs op) then Inr out else Inl ValueError, ws))"

definition adjoint_call ::
  "dtype \<Rightarrow> uniform_spread \<Rightarrow> ndarray \<Rightarrow> (error + ndarray) \<times> warning list" where
  "adjoint_call prec op arr =
     (let (out, ws) = adjoint_op prec op arr
      in (if pool_ok (op_kwargs op) then Inr out else Inl ValueError, ws))"

text \<open>\<^verbatim>\<open>asarray\<close>: \<open>A\<close> has shape (N1,...,ND, M) and is the product over the axes of
  \<^verbatim>\<open>_phi(_l[..., np.newaxis] - _x)\<close>; \<open>dt\<close> is the dtype the caller asks for.\<close>

definition asarray :: "uniform_spread \<Rightarrow> dtype \<Rightarrow> ndarray" where
  "asarray op dt =
     (let D = codim_rank op;
          lat = lattice (op_z op) (replicate D None);
          x = rows_of (op_x op)
      in \<lparr>dtype = dt,
          shape = codim_shape op @ [dim_size op],
          elems = (\<lambda>idx. fold (\<lambda>d a. a * call (op_kernel op ! d) (lat ! d ! (idx ! d) - x ! (idx ! D) ! d))
                           [0..<D] 1)\<rparr>)"

section \<open>Reference notions of the specification\<close>

text \<open>Two operators behave identically: they have the same shapes and cluster metadata, and
  every call of \<^verbatim>\<open>apply\<close>, \<^verbatim>\<open>adjoint\<close> and \<^verbatim>\<open>asarray\<close> gives the same
  outcome on both.\<close>

definition same_behaviour :: "uniform_spread \<Rightarrow> uniform_spread \<Rightarrow> bool" where
  "same_behaviour op op' =
     (dim_size op = dim_size op' \<and> codim_shape op = codim_shape op' \<and>
      op_cl_info op = op_cl_info op' \<and>
      (\<forall>prec arr. apply_op prec op arr = apply_op prec op' arr \<and>
                  adjoint_op prec op arr = adjoint_op prec op' arr \<and>
                  apply_call prec op arr = apply_call prec op' arr \<and>
                  adjoint_call prec op arr = adjoint_call prec op' arr) \<and>
      (\<forall>dt. asarray op dt = asarray op' dt))"

text \<open>The inner product of two arrays of one shape, and the two products with the dense
  matrix of shape (N1,...,ND, M).\<close>

definition inner :: "nat list \<Rightarrow> (nat list \<Rightarrow> real) \<Rightarrow> (nat list \<Rightarrow> real) \<Rightarrow> real" where
  "inner sh a b = (\<Sum>idx\<leftarrow>ndindex sh. a idx * b idx)"

definition dense_matvec :: "ndarray \<Rightarrow> (nat list \<Rightarrow> real) \<Rightarrow> nat list \<Rightarrow> real" where
  "dense_matvec A w n = (\<Sum>m\<leftarrow>[0..<last (shape A)]. elems A (n @ [m]) * w [m])"

definition dense_rmatvec :: "ndarray \<Rightarrow> (nat list \<Rightarrow> real) \<Rightarrow> nat list \<Rightarrow> real" where
  "dense_rmatvec A v m = (\<Sum>n\<leftarrow>ndindex (butlast (shape A)). elems A (n @ m) * v n)"

text \<open>The active point indices of an operator: the points within \<open>[alpha - s, beta + s]\<close> on
  every axis.\<close>

definition active_set :: "uniform_spread \<Rightarrow> nat set" where
  "active_set op =
     {m. m < dim_size op \<and>
         is_active (start (op_z op)) (stop (op_z op)) (map support (op_kernel op))
           (rows_of (op_x op) ! m)}"

text \<open>A kernel \<open>k\<close> vanishes outside \<open>[-s, s]\<close>, \<open>s = support k\<close> (the meaning of the
  support radius).\<close>

definition vanishes_outside_support :: "kernel_op \<Rightarrow> bool" where
  "vanishes_outside_support k = (\<forall>t. \<bar>t\<bar> > support k \<longrightarrow> call k t = 0)"

text \<open>The lattice node \<open>k\<close> of axis \<open>d\<close>: \<open>alpha + k * step\<close>, with the step of
  \<^verbatim>\<open>_lattice\<close>.\<close>

definition node :: "lattice_spec \<Rightarrow> nat \<Rightarrow> nat \<Rightarrow> real" where
  "node z d k =
     start z ! d + real k *
       (if num z ! d = 1 then 0 else (stop z ! d - start z ! d) / real_of_int (num z ! d - 1))"

text \<open>The weight the specification gives point \<open>m\<close> at lattice index \<open>n\<close>: the product over
  the axes of \<open>phi_d(z[n]_d - x[m]_d)\<close>.\<close>

definition weight :: "uniform_spread \<Rightarrow> nat \<Rightarrow> nat list \<Rightarrow> real" where
  "weight op m n =
     (\<Prod>d<codim_rank op. call (op_kernel op ! d) (node (op_z op) d (n ! d) - rows_of (op_x op) ! m ! d))"

text \<open>A multi-index lies below a shape.\<close>

definition in_box :: "nat list \<Rightarrow> nat list \<Rightarrow> bool" where
  "in_box S idx = (length idx = length S \<and> (\<forall>d<length S. idx ! d < S ! d))"

text \<open>The clusters of the two clustering passes together, and the bounds
  \<^verbatim>\<open>lb[d], ub[d]\<close> the compiled kernels compute for one point.\<close>

definition clusters_of :: "real list list \<Rightarrow> real list \<Rightarrow> int \<Rightarrow> (nat \<times> nat list) list" where
  "clusters_of x bbox_dim N_max = bisect_cluster x (grid_cluster x bbox_dim) N_max"

definition lb_of :: "real list list \<Rightarrow> nat list \<Rightarrow> nat \<Rightarrow> nat" where
  "lb_of km S d = fst (find_bounds (take (S ! d) (km ! d)))"

definition ub_of :: "real list list \<Rightarrow> nat list \<Rightarrow> nat \<Rightarrow> nat" where
  "ub_of km S d = snd (find_bounds (take (S ! d) (km ! d)))"

text \<open>The sub-grid bounds as claim C5 words them: each bound is
  \<open>round((coord - alpha) / step)\<close> (to the nearest integer), clipped to \<open>[0, N - 1]\<close>.\<close>

definition spec_window_idx :: "lattice_spec \<Rightarrow> real list \<Rightarrow> real list list \<Rightarrow> nat \<Rightarrow> int \<times> int" where
  "spec_window_idx z s xq d =
     (let alpha = start z ! d;
          beta = stop z ! d;
          N = num z ! d;
          step = (if N = 1 then 0 else (beta - alpha) / real_of_int (N - 1));
          LL = Min (set (map (\<lambda>p. p ! d) xq)) - s ! d;
          UR = Max (set (map (\<lambda>p. p ! d) xq)) + s ! d
      in (max 0 (min (N - 1) (round ((LL - alpha) / step))),
          max 0 (min (N - 1) (round ((UR - alpha) / step)))))"

text \<open>What construction establishes about an operator.\<close>

definition wf_op :: "uniform_spread \<Rightarrow> bool" where
  "wf_op op =
     (let D = codim_rank op in
      0 < D \<and> shape (op_x op) ! 1 = D \<and>
      length (op_kernel op) = D \<and> length (start (op_z op)) = D \<and> length (stop (op_z op)) = D \<and>
      (\<forall>d<D. lattice_axis_ok (start (op_z op) ! d) (stop (op_z op) ! d) (num (op_z op) ! d)) \<and>
      (\<forall>d<D. 0 < support (op_kernel op ! d)) \<and>
      op_cl_info op = build_info (rows_of (op_x op)) (op_z op) (op_kernel op) (op_kwargs op))"

text \<open>The configurations claim C7 calls malformed, on canonical arguments of \<open>D\<close> axes.\<close>

definition malformed_config :: "nat \<Rightarrow> lattice_spec \<Rightarrow> kernel_op list \<Rightarrow> kwargs \<Rightarrow> bool" where
  "malformed_config D z kern kw =
     ((\<exists>d<D. start z ! d > stop z ! d \<or> (start z ! d = stop z ! d \<and> num z ! d \<noteq> 1)) \<or>
      (\<exists>k\<in>set kern. support k \<le> 0) \<or>
      max_cluster_size kw \<le> 0 \<or>
      max_window_ratio kw < 3)"

definition spread_part :: "uniform_spread \<Rightarrow> (nat list \<Rightarrow> real) \<Rightarrow> cluster_info \<Rightarrow> nat list \<Rightarrow> real" where
  "spread_part op w cl n =
     (\<Sum>j<length (x_idx cl). \<Sum>idx\<in>set (visited (cluster_kernel op cl ! j) (map nat (z_num cl))).
        if roi_index op cl idx = n
        then kernel_weight (cluster_kernel op cl ! j) idx * w [x_idx cl ! j] else 0)"

definition gather_point :: "uniform_spread \<Rightarrow> (nat list \<Rightarrow> real) \<Rightarrow> cluster_info \<Rightarrow> nat \<Rightarrow> real" where
  "gather_point op v cl j =
     (\<Sum>idx\<in>set (visited (cluster_kernel op cl ! j) (map nat (z_num cl))).
        kernel_weight (cluster_kernel op cl ! j) idx * v (roi_index op cl idx))"

definition pairing :: "uniform_spread \<Rightarrow> (nat list \<Rightarrow> real) \<Rightarrow> (nat list \<Rightarrow> real) \<Rightarrow> real" where
  "pairing op w v =
     (\<Sum>(c, cl)\<leftarrow>op_cl_info op. \<Sum>j<length (x_idx cl).
        \<Sum>idx\<in>set (visited (cluster_kernel op cl ! j) (map nat (z_num cl))).
          kernel_weight (cluster_kernel op cl ! j) idx * w [x_idx cl ! j] * v (roi_index op cl idx))"

section \<open>Concrete operators\<close>

text \<open>The scenario of the specification: \<open>D = 1\<close>, the triangular kernel of support radius 1,
  the lattice \<open>start = 0, stop = 4, num = 5\<close>, and the points \<open>0.5, 2.5\<close>; a third point at
  \<open>10\<close> lies outside \<open>[alpha - s, beta + s]\<close>.\<close>

definition tri :: kernel_op where
  "tri = \<lparr>call = (\<lambda>t. max 0 (1 - \<bar>t\<bar>)), support = 1\<rparr>"

definition ex_x :: ndarray where
  "ex_x = \<lparr>dtype = Double, shape = [3],
           elems = (\<lambda>idx. if idx = [0] then 1 / 2 else if idx = [1] then 5 / 2 else 10)\<rparr>"

definition ex_z :: lattice_spec where
  "ex_z = \<lparr>start = [0], stop = [4], num = [5]\<rparr>"

text \<open>The default runtime precision, and a base-class initialiser that accepts the shapes
  whose entries are all positive.\<close>

definition ex_env :: env where
  "ex_env = \<lparr>precision = Double,
             linop_init = (\<lambda>M N. if M \<ge> 1 \<and> list_all (\<lambda>n. n \<ge> 1) N then None
                                   else Some AssertionError)\<rparr>"

definition ex_kw :: kwargs_in where
  "ex_kw = \<lparr>max_cluster_size_in = None, max_window_ratio_in = None, workers_in = None\<rparr>"

definition ex_op :: uniform_spread where
  "ex_op = \<lparr>op_x = newaxis ex_x, op_z = ex_z, op_kernel = [tri],
            op_enable_warnings = True, op_kwargs = canonical_kwargs ex_kw,
            op_cl_info = build_info (rows_of (newaxis ex_x)) ex_z [tri] (canonical_kwargs ex_kw)\<rparr>"

definition ex_w :: ndarray where
  "ex_w = \<lparr>dtype = Double, shape = [3], elems = (\<lambda>idx. 1)\<rparr>"


definition ex_v :: ndarray where
  "ex_v = \<lparr>dtype = Double, shape = [5], elems = (\<lambda>idx. real (hd idx) + 1)\<rparr>"

text \<open>A single point at \<open>1.6\<close> on the same lattice.\<close>

definition ex_x_off :: ndarray where
  "ex_x_off = \<lparr>dtype = Double, shape = [1], elems = (\<lambda>idx. 8 / 5)\<rparr>"

definition ex_op_off :: uniform_spread where
  "ex_op_off = \<lparr>op_x = newaxis ex_x_off, op_z = ex_z, op_kernel = [tri],
            op_enable_warnings = True, op_kwargs = canonical_kwargs ex_kw,
            op_cl_info = build_info (rows_of (newaxis ex_x_off)) ex_z [tri] (canonical_kwargs ex_kw)\<rparr>"

text \<open>No point within reach of the lattice.\<close>

definition ex_x_far :: ndarray where
  "ex_x_far = \<lparr>dtype = Double, shape = [1], elems = (\<lambda>idx. 10)\<rparr>"


text \<open>An array of no points.\<close>

definition ex_x_none :: ndarray where
  "ex_x_none = \<lparr>dtype = Double, shape = [0], elems = (\<lambda>idx. 0)\<rparr>"

text \<open>A rank-3 array, a lattice with one node on a non-degenerate axis, and one with no node.\<close>

definition ex_x3 :: ndarray where
  "ex_x3 = \<lparr>dtype = Double, shape = [1, 1, 1], elems = (\<lambda>idx. 0)\<rparr>"

definition ex_z_single :: lattice_spec where
  "ex_z_single = \<lparr>start = [0], stop = [1], num = [1]\<rparr>"

definition ex_z_empty :: lattice_spec where
  "ex_z_empty = \<lparr>start = [0], stop = [1], num = [0]\<rparr>"

text \<open>A two-dimensional operator: one point, a 2 by 3 lattice.\<close>

definition ex_x2 :: ndarray where
  "ex_x2 = \<lparr>dtype = Double, shape = [1, 2], elems = (\<lambda>idx. 1 / 2)\<rparr>"

definition ex_z2 :: lattice_spec where
  "ex_z2 = \<lparr>start = [0, 0], stop = [1, 2], num = [2, 3]\<rparr>"

text \<open>A kernel that does not vanish outside its declared support, on the operator with no
  point in reach, and one weight.\<close>

definition flat :: kernel_op where
  "flat = \<lparr>call = (\<lambda>t. 1), support = 1\<rparr>"

definition ex_op_flat :: uniform_spread where
  "ex_op_flat = \<lparr>op_x = newaxis ex_x_far, op_z = ex_z, op_kernel = [flat],
            op_enable_warnings = True, op_kwargs = canonical_kwargs ex_kw,
            op_cl_info = build_info (rows_of (newaxis ex_x_far)) ex_z [flat] (canonical_kwargs ex_kw)\<rparr>"

definition ex_w1 :: ndarray where
  "ex_w1 = \<lparr>dtype = Double, shape = [1], elems = (\<lambda>idx. 1)\<rparr>"

section \<open>Construction: what is accepted and what is stored\<close>

subsection \<open>The metadata under exact arithmetic\<close>

lemma is_active_exact:
  "is_active alpha beta s p =
     (list_all (\<lambda>d. alpha ! d - s ! d \<le> p ! d) [0..<length p] \<and>
      list_all (\<lambda>d. p ! d \<le> beta ! d + s ! d) [0..<length p])"
  by (simp add: is_active_def is_active_fl_def exact_arith_def)

lemma active_indices_exact:
  "active_indices x z kern =
     (let s = map support kern;
          active = map (is_active (start z) (stop z) s) x
      in filter (\<lambda>i. active ! i) [0..<length x])"
  by (simp add: active_indices_def active_indices_fl_def is_active_def)

lemma window_idx_exact:
  "window_idx z s xq d =
     (let alpha = start z ! d;
          beta = stop z ! d;
          N = num z ! d;
          LL = Min (set (map (\<lambda>p. p ! d) xq)) - s ! d;
          UR = Max (set (map (\<lambda>p. p ! d) xq)) + s ! d;
          ratio = (if N > 1 then real_of_int (N - 1) / (beta - alpha) else real_of_int (N - 1));
          LL_idx = \<lfloor>(LL - alpha) * ratio\<rfloor>;
          UR_idx = \<lceil>(UR - alpha) * ratio\<rceil>
      in (max 0 LL_idx, min UR_idx (N - 1)))"
  by (simp add: window_idx_def window_idx_fl_def exact_arith_def Let_def)

lemma build_info_exact:
  "build_info x z kern kw =
     (let s = map support kern;
          D = length s;
          active2global = active_indices x z kern;
          x = map (\<lambda>i. x ! i) active2global
      in if length x = 0 then []
         else
           let bbox_dim = map (\<lambda>sd. (2 * sd) * max_window_ratio kw) s;
               clusters = grid_cluster x bbox_dim;
               clusters = bisect_cluster x clusters (max_cluster_size kw)
           in map (\<lambda>(c_idx, xi).
                let xq = map (\<lambda>i. x ! i) xi;
                    LU = map (window_idx z s xq) [0..<D]
                in (c_idx,
                    \<lparr>x_idx = map (\<lambda>i. active2global ! i) xi,
                     z_anchor = map fst LU,
                     z_num = map (\<lambda>(LL_idx, UR_idx). UR_idx - LL_idx + 1) LU\<rparr>)) clusters)"
  unfolding build_info_def build_info_fl_def active_indices_def window_idx_def
  by (simp add: exact_arith_def Let_def)

lemma shape_astype [simp]: "shape (astype a dt) = shape a"
  by (simp add: astype_def)

lemma elems_astype [simp]: "elems (astype a dt) = elems a"
  by (simp add: astype_def)

lemma dtype_astype [simp]: "dtype (astype a dt) = dt"
  by (simp add: astype_def)

lemma rows_of_astype [simp]: "rows_of (astype a dt) = rows_of a"
  by (simp add: rows_of_def)

lemma ndim_astype [simp]: "ndim (astype a dt) = ndim a"
  by (simp add: ndim_def)

lemma ex_init: "init ex_env ex_x ex_z [tri] True ex_kw = Inr ex_op"
  by (simp add: init_def ex_env_def coerce_def astype_def points_2d_def ndim_def ex_x_def ex_z_def tri_def ex_kw_def ex_op_def newaxis_def as_seq_def broadcast_def
       canonical_kwargs_def lattice_axis_ok_def Let_def)

lemma ndim_newaxis: "ndim (newaxis x) = Suc (ndim x)"
  by (simp add: ndim_def newaxis_def)

lemma newaxis_shape: "ndim x = 1 \<Longrightarrow> shape (newaxis x) = [shape x ! 0, 1]"
  by (cases "shape x") (auto simp: ndim_def newaxis_def)

lemma rows_of_newaxis:
  "ndim x = 1 \<Longrightarrow> rows_of (newaxis x) = map (\<lambda>m. [elems x [m]]) [0..<shape x ! 0]"
  by (cases "shape x") (simp_all add: ndim_def rows_of_def newaxis_def)

lemma rows_of_column: "shape y = [M, 1] \<Longrightarrow> rows_of y = map (\<lambda>m. [elems y [m, 0]]) [0..<M]"
  by (simp add: rows_of_def)

lemma as_seq_Inr: "as_seq x N = Inr y \<longleftrightarrow> (y = broadcast x N \<and> length (broadcast x N) = N)"
  by (auto simp: as_seq_def Let_def)

text \<open>What a successful construction has checked and stored.\<close>

lemma init_Inr:
  assumes "init env x z kern ew kw = Inr op"
  defines "D \<equiv> shape (points_2d x) ! 1"
  shows "ndim x \<in> {1, 2}"
    and "op_x op = astype (points_2d x) (precision env)"
    and "op_kernel op = broadcast kern D" and "length (op_kernel op) = D"
    and "\<forall>k\<in>set (op_kernel op). support k > 0"
    and "start (op_z op) = broadcast (start z) D" and "length (start (op_z op)) = D"
    and "stop (op_z op) = broadcast (stop z) D" and "length (stop (op_z op)) = D"
    and "num (op_z op) = broadcast (num z) D" and "length (num (op_z op)) = D"
    and "\<forall>d<D. lattice_axis_ok (start (op_z op) ! d) (stop (op_z op) ! d) (num (op_z op) ! d)"
    and "op_kwargs op = canonical_kwargs kw"
    and "max_cluster_size (op_kwargs op) > 0" and "max_window_ratio (op_kwargs op) \<ge> 3"
    and "D > 0"
    and "op_enable_warnings op = ew"
    and "op_cl_info op = build_info (rows_of (op_x op)) (op_z op) (op_kernel op) (op_kwargs op)"
    and "linop_init env (shape (points_2d x) ! 0) (num (op_z op)) = None"
    and "precision env = Single \<or> precision env = Double"
  using assms
  by (auto simp: init_def Let_def points_2d_def coerce_def as_seq_Inr list_all_iff
           split: if_splits sum.splits option.splits)

lemma not_lattice_axis_ok:
  "(\<not> lattice_axis_ok a b N) = ((a > b \<or> (a = b \<and> N \<noteq> 1)) \<or> (a < b \<and> N < 1))"
  by (auto simp: lattice_axis_ok_def)

lemma init_isl_code:
  assumes "ndim x = 1 \<or> ndim x = 2"
  shows "isl (init env x z kern ew kw) =
     (let D = shape (points_2d x) ! 1;
          z' = \<lparr>start = broadcast (start z) D, stop = broadcast (stop z) D,
                num = broadcast (num z) D\<rparr>;
          kern' = broadcast kern D
      in length kern' \<noteq> D \<or> (\<exists>k\<in>set kern'. \<not> support k > 0) \<or>
         length (start z') \<noteq> D \<or> length (stop z') \<noteq> D \<or> length (num z') \<noteq> D \<or>
         (\<exists>d<D. \<not> lattice_axis_ok (start z' ! d) (stop z' ! d) (num z' ! d)) \<or>
         \<not> max_cluster_size (canonical_kwargs kw) > 0 \<or>
         \<not> max_window_ratio (canonical_kwargs kw) \<ge> 3 \<or>
         linop_init env (shape (points_2d x) ! 0) (num z') \<noteq> None \<or>
         (precision env \<noteq> Single \<and> precision env \<noteq> Double) \<or> D = 0)"
  using assms
  by (auto simp: init_def Let_def coerce_def as_seq_def list_all_iff
           split: if_splits sum.splits option.splits)

subsection \<open>Points of rank 1\<close>

lemma same_behaviourI:
  assumes "rows_of (op_x op) = rows_of (op_x op')" and "dtype (op_x op) = dtype (op_x op')"
    and "shape (op_x op) ! 0 = shape (op_x op') ! 0"
    and "op_z op = op_z op'" and "op_kernel op = op_kernel op'"
    and "op_enable_warnings op = op_enable_warnings op'" and "op_kwargs op = op_kwargs op'"
    and "op_cl_info op = op_cl_info op'"
  shows "same_behaviour op op'"
proof -
  have ck: "cluster_kernel op = cluster_kernel op'"
    by (simp add: fun_eq_iff cluster_kernel_def assms)
  have ri: "roi_index op = roi_index op'"
    by (simp add: fun_eq_iff roi_index_def roi_indices_def codim_shape_def codim_rank_def assms)
  have sp: "spread op = spread op'" by (simp add: fun_eq_iff spread_def ck ri)
  have ip: "interpolate op = interpolate op'" by (simp add: fun_eq_iff interpolate_def ck ri)
  have cw: "cast_warn op = cast_warn op'" by (simp add: fun_eq_iff cast_warn_def assms)
  have ab: "apply_body op = apply_body op'"
    by (simp add: fun_eq_iff apply_body_def sp cw codim_shape_def assms)
  have jb: "adjoint_body op = adjoint_body op'"
    by (simp add: fun_eq_iff adjoint_body_def ip cw dim_size_def assms)
  have aa: "asarray op = asarray op'"
    by (simp add: fun_eq_iff asarray_def codim_rank_def codim_shape_def dim_size_def assms)
  show ?thesis
    by (simp add: same_behaviour_def apply_op_def adjoint_op_def apply_call_def adjoint_call_def
          ab jb aa assms dim_size_def codim_shape_def)
qed

lemma init_column:
  assumes r1: "ndim x = 1" and sh: "shape y = [shape x ! 0, 1]"
    and el: "\<forall>m<shape x ! 0. elems y [m, 0] = elems x [m]"
  shows "init env y z kern ew kw =
           map_sum id (\<lambda>op. op\<lparr>op_x := astype y (precision env)\<rparr>) (init env x z kern ew kw)"
proof -
  have rows: "rows_of y = rows_of (newaxis x)"
    using el by (simp add: rows_of_newaxis [OF r1] rows_of_column [OF sh])
  have n2: "ndim y = 2" using sh by (simp add: ndim_def)
  have shx: "shape (newaxis x) = [shape x ! 0, 1]" using r1 by (rule newaxis_shape)
  show ?thesis
    using r1 n2
    by (simp add: init_def points_2d_def coerce_def Let_def sh shx rows
             split: sum.splits option.splits)
qed

text \<open>
  C9.  A points array of rank 1, shape (M,), is reshaped to the (M, 1) array that holds the
  same coordinates (entry \<open>(m, 0)\<close> is entry \<open>m\<close> of the input, the dtype is kept), and
  construction goes on exactly as for that array: the two constructions give the same
  result.  The operator built has \<open>D = 1\<close> and \<open>M\<close> points, and the points it stores are the
  coordinates given.  Construction with any explicit (M, 1) array \<open>y\<close> that holds the same
  coordinates ends the same way: with the same error, or with an operator that has the same
  cluster metadata and the same \<^verbatim>\<open>apply\<close>, \<^verbatim>\<open>adjoint\<close> and \<^verbatim>\<open>asarray\<close>.
  A points array whose rank is neither 1 nor 2 is rejected.
\<close>

theorem init_rank:
  "(ndim x = 1 \<longrightarrow>
      shape (newaxis x) = [shape x ! 0, 1] \<and> dtype (newaxis x) = dtype x \<and>
      (\<forall>m. elems (newaxis x) [m, 0] = elems x [m]) \<and>
      init env x z kern ew kw = init env (newaxis x) z kern ew kw \<and>
      (\<forall>op. init env x z kern ew kw = Inr op \<longrightarrow>
         codim_rank op = 1 \<and> dim_size op = shape x ! 0 \<and>
         rows_of (op_x op) = map (\<lambda>m. [elems x [m]]) [0..<shape x ! 0]) \<and>
      (\<forall>y. shape y = [shape x ! 0, 1] \<and> (\<forall>m<shape x ! 0. elems y [m, 0] = elems x [m]) \<longrightarrow>
         (case init env x z kern ew kw of
            Inl e \<Rightarrow> init env y z kern ew kw = Inl e
          | Inr op \<Rightarrow> (\<exists>op'. init env y z kern ew kw = Inr op' \<and> same_behaviour op op')))) \<and>
   (ndim x \<noteq> 1 \<and> ndim x \<noteq> 2 \<longrightarrow> init env x z kern ew kw = Inl AssertionError)"
proof (intro conjI impI allI)
  assume r1: "ndim x = 1"
  then show shx: "shape (newaxis x) = [shape x ! 0, 1]" by (rule newaxis_shape)
  show "dtype (newaxis x) = dtype x" by (simp add: newaxis_def)
  show "elems (newaxis x) [m, 0] = elems x [m]" for m by (simp add: newaxis_def)
  have "ndim (newaxis x) = 2" using r1 by (simp add: ndim_newaxis)
  then show "init env x z kern ew kw = init env (newaxis x) z kern ew kw"
    using r1 by (simp add: init_def points_2d_def)
  have p2: "points_2d x = newaxis x" using r1 by (simp add: points_2d_def)
  {
    fix op assume i: "init env x z kern ew kw = Inr op"
    note f = init_Inr [OF i]
    show "codim_rank op = 1" using f(11) by (simp add: codim_rank_def p2 shx)
    show "dim_size op = shape x ! 0" using f(2) by (simp add: dim_size_def p2 shx)
    show "rows_of (op_x op) = map (\<lambda>m. [elems x [m]]) [0..<shape x ! 0]"
      using f(2) by (simp add: p2 rows_of_newaxis [OF r1])
  }
  {
    fix y :: ndarray assume y: "shape y = [shape x ! 0, 1] \<and> (\<forall>m<shape x ! 0. elems y [m, 0] = elems x [m])"
    then have sh: "shape y = [shape x ! 0, 1]" and el: "\<forall>m<shape x ! 0. elems y [m, 0] = elems x [m]"
      by simp_all
    note ic = init_column [OF r1 sh el, of env z kern ew kw]
    show "case init env x z kern ew kw of
            Inl e \<Rightarrow> init env y z kern ew kw = Inl e
          | Inr op \<Rightarrow> (\<exists>op'. init env y z kern ew kw = Inr op' \<and> same_behaviour op op')"
    proof (cases "init env x z kern ew kw")
      case (Inl e)
      then show ?thesis using ic by simp
    next
      case (Inr op)
      note f = init_Inr [OF Inr]
      let ?op' = "op\<lparr>op_x := astype y (precision env)\<rparr>"
      have rows: "rows_of y = rows_of (newaxis x)"
        using el by (simp add: rows_of_newaxis [OF r1] rows_of_column [OF sh])
      have "same_behaviour op ?op'"
        by (rule same_behaviourI) (simp_all add: f(2) p2 rows shx sh)
      moreover have "init env y z kern ew kw = Inr ?op'" using ic Inr by simp
      ultimately show ?thesis using Inr by simp
    qed
  }
next
  assume "ndim x \<noteq> 1 \<and> ndim x \<noteq> 2"
  then show "init env x z kern ew kw = Inl AssertionError" by (simp add: init_def)
qed

theorem init_rank_witness:
  "ndim ex_x = 1 \<and> init ex_env ex_x ex_z [tri] True ex_kw = Inr ex_op \<and>
   init ex_env (newaxis ex_x) ex_z [tri] True ex_kw = Inr ex_op \<and>
   codim_rank ex_op = 1 \<and> dim_size ex_op = 3 \<and>
   rows_of (op_x ex_op) = [[1 / 2], [5 / 2], [10]] \<and>
   ndim ex_x3 = 3 \<and> init ex_env ex_x3 ex_z [tri] True ex_kw = Inl AssertionError"
proof -
  have a: "ndim ex_x = 1" by (simp add: ndim_def ex_x_def)
  have b: "ndim ex_x3 \<noteq> 1 \<and> ndim ex_x3 \<noteq> 2" by (simp add: ndim_def ex_x3_def)
  have c: "map (\<lambda>m. [elems ex_x [m]]) [0..<shape ex_x ! 0] = [[1 / 2], [5 / 2], [10]]"
    by (simp add: ex_x_def upt_rec)
  from init_rank [where x = ex_x and env = ex_env and z = ex_z and kern = "[tri]" and ew = True
                    and kw = ex_kw]
       init_rank [where x = ex_x3 and env = ex_env and z = ex_z and kern = "[tri]" and ew = True
                    and kw = ex_kw] a b c ex_init
  show ?thesis by (simp add: ndim_def ex_x3_def ex_x_def)
qed

text \<open>
  C7 (amended).  Construction on an in-memory points array raises exactly when: the rank of
  the points array is neither 1 nor 2; or the kernel, start, stop or num sequence has, after
  broadcasting a single entry, a length other than \<open>D\<close>; or the configuration is malformed
  in the sense of the claim (some axis with \<open>start > stop\<close>, or with \<open>start = stop\<close> and a
  count other than 1; some kernel support \<open>\<le> 0\<close>; \<open>max_cluster_size \<le> 0\<close>;
  \<open>max_window_ratio < 3\<close>); or some axis with \<open>start < stop\<close> has a count below 1; or the
  initialiser of the base class rejects \<open>dim_shape = M\<close>, \<open>codim_shape = num\<close> (it is not
  among the source files; the one of the library rejects \<open>M = 0\<close>); or the runtime
  precision, to which the points are coerced, is neither single nor double; or \<open>D = 0\<close>.
\<close>

theorem init_raises_iff:
  "isl (init env x z kern ew kw) =
     (ndim x \<noteq> 1 \<and> ndim x \<noteq> 2 \<or>
      (let D = shape (points_2d x) ! 1;
           M = shape (points_2d x) ! 0;
           z' = \<lparr>start = broadcast (start z) D, stop = broadcast (stop z) D,
                 num = broadcast (num z) D\<rparr>;
           kern' = broadcast kern D
       in length kern' \<noteq> D \<or> length (start z') \<noteq> D \<or> length (stop z') \<noteq> D \<or>
          length (num z') \<noteq> D \<or>
          malformed_config D z' kern' (canonical_kwargs kw) \<or>
          (\<exists>d<D. start z' ! d < stop z' ! d \<and> num z' ! d < 1) \<or>
          linop_init env M (num z') \<noteq> None \<or>
          (precision env \<noteq> Single \<and> precision env \<noteq> Double) \<or>
          D = 0))"
proof (cases "ndim x = 1 \<or> ndim x = 2")
  case False
  then show ?thesis by (simp add: init_def)
next
  case True
  show ?thesis
    unfolding init_isl_code [OF True] Let_def malformed_config_def not_lattice_axis_ok
    using True apply (elim disjE) apply (simp_all add: not_le not_less ex_disj_distrib conj_disj_distribL)
    apply argo apply argo done
qed

theorem init_raises_iff_witness:
  "isl (init ex_env ex_x ex_z_empty [tri] True ex_kw) \<and>
   isl (init ex_env ex_x_none ex_z [tri] True ex_kw) \<and>
   isl (init (ex_env\<lparr>precision := Half\<rparr>) ex_x ex_z [tri] True ex_kw) \<and>
   \<not> isl (init ex_env ex_x ex_z [tri] True ex_kw)"
  using init_raises_iff [of ex_env ex_x ex_z_empty "[tri]" True ex_kw]
        init_raises_iff [of ex_env ex_x_none ex_z "[tri]" True ex_kw]
        init_raises_iff [of "ex_env\<lparr>precision := Half\<rparr>" ex_x ex_z "[tri]" True ex_kw]
        init_raises_iff [of ex_env ex_x ex_z "[tri]" True ex_kw]
  by (simp add: points_2d_def ndim_def ex_x_def ex_x_none_def ex_z_empty_def ex_z_def tri_def
       ex_kw_def ex_env_def newaxis_def broadcast_def canonical_kwargs_def Let_def
       malformed_config_def)

text \<open>
  C7 as stated fails: a lattice axis with \<open>start = 0 < stop = 1\<close> and \<open>num = 0\<close> is rejected,
  and none of the conditions the claim lists holds.
\<close>

theorem init_raises_counterexample:
  "isl (init ex_env ex_x ex_z_empty [tri] True ex_kw) \<and>
   \<not> malformed_config 1 ex_z_empty [tri] (canonical_kwargs ex_kw)"
  by (simp add: init_def points_2d_def ndim_def ex_x_def ex_z_empty_def tri_def ex_kw_def newaxis_def
       as_seq_def broadcast_def canonical_kwargs_def lattice_axis_ok_def Let_def malformed_config_def)

text \<open>
  C6 (amended).  The lattice of a constructed operator has, on every axis, \<open>start \<le> stop\<close>
  and \<open>count \<ge> 1\<close>, and \<open>start = stop\<close> implies \<open>count = 1\<close>.  (The converse is not
  enforced: the check on an axis with \<open>start < stop\<close> is \<open>N \<ge> 1\<close>.)
\<close>

theorem init_lattice_invariant:
  assumes "init env x z kern ew kw = Inr op" and "d < codim_rank op"
  shows "start (op_z op) ! d \<le> stop (op_z op) ! d \<and>
         num (op_z op) ! d \<ge> 1 \<and>
         (start (op_z op) ! d = stop (op_z op) ! d \<longrightarrow> num (op_z op) ! d = 1)"
proof -
  let ?D = "shape (points_2d x) ! 1"
  have len: "length (num (op_z op)) = ?D" using init_Inr(11) [OF assms(1)] .
  then have "d < ?D" using assms(2) by (simp add: codim_rank_def)
  with init_Inr(12) [OF assms(1)]
  have "lattice_axis_ok (start (op_z op) ! d) (stop (op_z op) ! d) (num (op_z op) ! d)" by blast
  then show ?thesis by (auto simp: lattice_axis_ok_def split: if_splits)
qed

theorem init_lattice_invariant_witness:
  "init ex_env ex_x ex_z [tri] True ex_kw = Inr ex_op \<and> (0::nat) < codim_rank ex_op \<and>
   start (op_z ex_op) ! 0 \<le> stop (op_z ex_op) ! 0 \<and> num (op_z ex_op) ! 0 \<ge> 1 \<and>
   start (op_z ex_op) ! 0 \<noteq> stop (op_z ex_op) ! 0"
proof -
  have r: "(0::nat) < codim_rank ex_op" by (simp add: codim_rank_def ex_op_def ex_z_def)
  from init_lattice_invariant [OF ex_init r] ex_init r show ?thesis
    by (simp add: ex_op_def ex_z_def)
qed

lemma ex_single_init:
  "init ex_env ex_x ex_z_single [tri] True ex_kw =
     Inr \<lparr>op_x = newaxis ex_x, op_z = ex_z_single, op_kernel = [tri],
          op_enable_warnings = True, op_kwargs = canonical_kwargs ex_kw,
          op_cl_info = build_info (rows_of (newaxis ex_x)) ex_z_single [tri] (canonical_kwargs ex_kw)\<rparr>"
  by (simp add: init_def ex_env_def coerce_def astype_def points_2d_def ndim_def ex_x_def ex_z_single_def tri_def ex_kw_def newaxis_def
       as_seq_def broadcast_def canonical_kwargs_def lattice_axis_ok_def Let_def)

text \<open>
  C6 as stated fails: the lattice \<open>start = 0, stop = 1, num = 1\<close> is accepted, with
  \<open>count = 1\<close> and \<open>start < stop\<close>.
\<close>

theorem count_one_counterexample:
  "map_sum id op_z (init ex_env ex_x ex_z_single [tri] True ex_kw) = Inr ex_z_single \<and>
   num ex_z_single ! 0 = 1 \<and> start ex_z_single ! 0 < stop ex_z_single ! 0"
  by (simp add: ex_single_init) (simp add: ex_z_single_def)

section \<open>Precision mismatch\<close>

lemma cast_warn_astype:
  "cast_warn op (astype arr (dtype (op_x op))) = (astype arr (dtype (op_x op)), [])"
  by (simp add: cast_warn_def astype_def)

lemma astype_astype [simp]: "astype (astype arr dt) dt' = astype arr dt'"
  by (simp add: astype_def)












subsection \<open>Folds of point updates\<close>

lemma fold_upd_add:
  "fold (\<lambda>a f. f(key a := f (key a) + val a)) as f n
     = f n + (\<Sum>a\<leftarrow>as. if key a = n then val a else 0)"
  by (induction as arbitrary: f) (auto simp: algebra_simps)

lemma fold_fold_add:
  assumes "\<And>m f n. step m f n = f n + c m n"
  shows "fold step ms f n = f n + (\<Sum>m\<leftarrow>ms. c m n)"
  by (induction ms arbitrary: f) (auto simp: assms algebra_simps)

subsection \<open>Multi-indices\<close>

lemma in_box_Nil [simp]: "in_box [] idx = (idx = [])"
  by (simp add: in_box_def)

lemma in_box_Cons: "in_box (n # ns) idx = (\<exists>i r. idx = i # r \<and> i < n \<and> in_box ns r)"
proof (cases idx)
  case Nil
  then show ?thesis by (simp add: in_box_def)
next
  case (Cons i r)
  then show ?thesis
    by (auto simp: in_box_def nth_Cons split: nat.splits)
qed

lemma set_ndindex: "set (ndindex S) = {idx. in_box S idx}"
  by (induction S) (auto simp: in_box_Cons)

lemma distinct_concat_cons:
  "distinct is \<Longrightarrow> distinct ys \<Longrightarrow> distinct (concat (map (\<lambda>i. map ((#) i) ys) is))"
  by (induction "is") (auto simp: distinct_map inj_on_def)

lemma distinct_ndindex: "distinct (ndindex S)"
  by (induction S) (simp_all add: distinct_concat_cons)

lemma sum_list_ndindex: "(\<Sum>idx\<leftarrow>ndindex S. f idx) = sum f {idx. in_box S idx}"
  using sum_list_distinct_conv_sum_set [OF distinct_ndindex, of f S] by (simp add: set_ndindex)

lemma finite_in_box: "finite {idx. in_box S idx}"
  using finite_set [of "ndindex S"] by (simp only: set_ndindex)

subsection \<open>find_bounds\<close>

declare find_bounds_loop.simps [simp del]

lemma find_bounds_loop_spec:
  assumes "i \<le> length x"
    and "if af then a < length x \<and> x ! a \<noteq> 0 \<and> (\<forall>j<a. x ! j = 0)
         else a = length x \<and> (\<forall>j<i. x ! j = 0)"
    and "if bf then 0 < b \<and> b \<le> length x \<and> x ! (b - 1) \<noteq> 0 \<and> (\<forall>j<length x. b \<le> j \<longrightarrow> x ! j = 0)
         else b = length x \<and> (\<forall>j<length x. length x - i \<le> j \<longrightarrow> x ! j = 0)"
    and "find_bounds_loop x i (a, af) (b, bf) = (a', b')"
  shows "a' \<le> b' \<and> b' \<le> length x \<and> (\<forall>j<length x. j < a' \<or> b' \<le> j \<longrightarrow> x ! j = 0)"
  using assms
proof (induction x i "(a, af)" "(b, bf)" arbitrary: a af b bf rule: find_bounds_loop.induct)
  case (1 x i a af b bf)
  note inv_a = "1.prems"(2) and inv_b = "1.prems"(3)
  show ?case
  proof (cases "i < length x")
    case False
    then have i: "i = length x" using "1.prems"(1) by simp
    have res: "a' = a" "b' = b"
      using "1.prems"(4) False by (simp_all add: find_bounds_loop.simps)
    show ?thesis
    proof (cases af; cases bf)
      assume af bf
      with inv_a inv_b have A: "a < length x" "x ! a \<noteq> 0" "\<forall>j<a. x ! j = 0"
        and B: "0 < b" "b \<le> length x" "x ! (b - 1) \<noteq> 0" "\<forall>j<length x. b \<le> j \<longrightarrow> x ! j = 0"
        by simp_all
      have "a < b" using A B by (metis not_less)
      then show ?thesis using A B res by auto
    next
      assume "af" "\<not> bf"
      with inv_a inv_b i have False by auto
      then show ?thesis ..
    next
      assume "\<not> af" "bf"
      with inv_a inv_b i have False
        by (metis One_nat_def Suc_pred less_Suc_eq_le not_less)
      then show ?thesis ..
    next
      assume "\<not> af" "\<not> bf"
      with inv_a inv_b i res show ?thesis by auto
    qed
  next
    case True
    define a1 where "a1 = (if \<not> af \<and> \<bar>x ! i\<bar> > 0 then i else a)"
    define af1 where "af1 = (if \<not> af \<and> \<bar>x ! i\<bar> > 0 then True else af)"
    define b1 where "b1 = (if \<not> bf \<and> \<bar>x ! (length x - 1 - i)\<bar> > 0 then length x - i else b)"
    define bf1 where "bf1 = (if \<not> bf \<and> \<bar>x ! (length x - 1 - i)\<bar> > 0 then True else bf)"
    have step: "find_bounds_loop x i (a, af) (b, bf) =
        (if af1 \<and> bf1 then (a1, b1) else find_bounds_loop x (i + 1) (a1, af1) (b1, bf1))"
      using True
      by (subst find_bounds_loop.simps) (simp add: a1_def af1_def b1_def bf1_def Let_def)
    have inv_a1: "if af1 then a1 < length x \<and> x ! a1 \<noteq> 0 \<and> (\<forall>j<a1. x ! j = 0)
         else a1 = length x \<and> (\<forall>j<i + 1. x ! j = 0)"
      using inv_a True by (auto simp: a1_def af1_def less_Suc_eq)
    have inv_b1: "if bf1 then 0 < b1 \<and> b1 \<le> length x \<and> x ! (b1 - 1) \<noteq> 0 \<and>
             (\<forall>j<length x. b1 \<le> j \<longrightarrow> x ! j = 0)
         else b1 = length x \<and> (\<forall>j<length x. length x - (i + 1) \<le> j \<longrightarrow> x ! j = 0)"
    proof (cases "\<not> bf \<and> \<bar>x ! (length x - 1 - i)\<bar> > 0")
      case True
      then show ?thesis using inv_b \<open>i < length x\<close>
        by (auto simp: b1_def bf1_def)
    next
      case False
      have "x ! j = 0" if "\<not> bf" "j < length x" "length x - (i + 1) \<le> j" for j
      proof (cases "j = length x - 1 - i")
        case True
        then show ?thesis using False that by auto
      next
        case False
        then have "length x - i \<le> j" using that \<open>i < length x\<close> by linarith
        then show ?thesis using inv_b that by auto
      qed
      then show ?thesis using False inv_b by (auto simp: b1_def bf1_def)
    qed
    show ?thesis
    proof (cases "af1 \<and> bf1")
      case True
      then have res: "a' = a1" "b' = b1" using "1.prems"(4) step by simp_all
      from True inv_a1 inv_b1 have A: "a1 < length x" "x ! a1 \<noteq> 0" "\<forall>j<a1. x ! j = 0"
        and B: "0 < b1" "b1 \<le> length x" "x ! (b1 - 1) \<noteq> 0" "\<forall>j<length x. b1 \<le> j \<longrightarrow> x ! j = 0"
        by simp_all
      have "a1 < b1" using A B by (metis not_less)
      then show ?thesis using A B res by auto
    next
      case False
      then have call: "find_bounds_loop x (i + 1) (a1, af1) (b1, bf1) = (a', b')"
        using "1.prems"(4) False by (simp add: step)
      have le: "i + 1 \<le> length x" using \<open>i < length x\<close> by simp
      have p6: "(a1, af1) = (if \<not> af \<and> 0 < \<bar>x ! i\<bar> then (i, True) else (a, af))"
        by (simp add: a1_def af1_def)
      have p8: "(b1, bf1) =
          (if \<not> bf \<and> 0 < \<bar>x ! (length x - 1 - i)\<bar> then (length x - i, True) else (b, bf))"
        by (simp add: b1_def bf1_def)
      show ?thesis
        by (rule "1.hyps" [OF \<open>i < length x\<close> refl refl refl refl p6 refl p8 False le
              inv_a1 inv_b1 call])
    qed
  qed
qed


lemma find_bounds_spec:
  assumes "find_bounds x = (a, b)"
  shows "a \<le> b \<and> b \<le> length x \<and> (\<forall>j<length x. j < a \<or> b \<le> j \<longrightarrow> x ! j = 0)"
  by (rule find_bounds_loop_spec [of 0 x False "length x" False "length x" a b])
     (use assms in \<open>simp_all add: find_bounds_def\<close>)

subsection \<open>The indices one point visits\<close>

lemma bounds_spec:
  assumes "S ! d \<le> length (km ! d)"
  shows "lb_of km S d \<le> ub_of km S d" and "ub_of km S d \<le> S ! d"
    and "j < S ! d \<Longrightarrow> j < lb_of km S d \<or> ub_of km S d \<le> j \<Longrightarrow> km ! d ! j = 0"
proof -
  let ?x = "take (S ! d) (km ! d)"
  have len: "length ?x = S ! d" using assms by simp
  have fb: "find_bounds ?x = (lb_of km S d, ub_of km S d)" by (simp add: lb_of_def ub_of_def)
  note sp = find_bounds_spec [OF fb, unfolded len]
  show "lb_of km S d \<le> ub_of km S d" "ub_of km S d \<le> S ! d" using sp by simp_all
  show "km ! d ! j = 0" if "j < S ! d" "j < lb_of km S d \<or> ub_of km S d \<le> j"
    using sp that by (metis nth_take)
qed

lemma visited_eq:
  "visited km S =
     map (\<lambda>offset. map (\<lambda>d. lb_of km S d + offset ! d) [0..<length S])
       (ndindex (map (\<lambda>d. ub_of km S d - lb_of km S d) [0..<length S]))"
proof -
  have a: "map (\<lambda>d. map f [0..<n] ! d - map g [0..<n] ! d) [0..<n] = map (\<lambda>d. f d - g d) [0..<n]"
    for f g :: "nat \<Rightarrow> nat" and n
    by simp
  have b: "map (\<lambda>d. map g [0..<n] ! d + off ! d) [0..<n] = map (\<lambda>d. g d + off ! d) [0..<n]"
    for g :: "nat \<Rightarrow> nat" and n off
    by simp
  show ?thesis
    by (simp add: visited_def Let_def lb_of_def ub_of_def a b comp_def)
qed

lemma set_visited:
  assumes "\<And>d. d < length S \<Longrightarrow> lb_of km S d \<le> ub_of km S d"
  shows "set (visited km S) =
     {idx. length idx = length S \<and> (\<forall>d<length S. lb_of km S d \<le> idx ! d \<and> idx ! d < ub_of km S d)}"
    (is "?L = ?R")
proof (intro set_eqI iffI)
  fix idx assume "idx \<in> ?L"
  then obtain off where off: "in_box (map (\<lambda>d. ub_of km S d - lb_of km S d) [0..<length S]) off"
    and idx: "idx = map (\<lambda>d. lb_of km S d + off ! d) [0..<length S]"
    by (auto simp: visited_eq set_ndindex)
  show "idx \<in> ?R" using off idx by (auto simp: in_box_def)
next
  fix idx assume "idx \<in> ?R"
  then have len: "length idx = length S"
    and bd: "\<And>d. d < length S \<Longrightarrow> lb_of km S d \<le> idx ! d \<and> idx ! d < ub_of km S d" by auto
  define off where "off = map (\<lambda>d. idx ! d - lb_of km S d) [0..<length S]"
  have "in_box (map (\<lambda>d. ub_of km S d - lb_of km S d) [0..<length S]) off"
    using bd by (auto simp: in_box_def off_def) (meson diff_less_mono)
  moreover have "idx = map (\<lambda>d. lb_of km S d + off ! d) [0..<length S]"
    using bd len by (auto simp: off_def intro!: nth_equalityI)
  ultimately show "idx \<in> ?L" by (auto simp: visited_eq set_ndindex)
qed

lemma distinct_visited: "distinct (visited km S)"
proof -
  have "inj_on (\<lambda>offset. map (\<lambda>d. lb_of km S d + offset ! d) [0..<length S])
          {off. in_box (map (\<lambda>d. ub_of km S d - lb_of km S d) [0..<length S]) off}"
  proof (rule inj_onI)
    fix p q
    assume p: "p \<in> {off. in_box (map (\<lambda>d. ub_of km S d - lb_of km S d) [0..<length S]) off}"
      and q: "q \<in> {off. in_box (map (\<lambda>d. ub_of km S d - lb_of km S d) [0..<length S]) off}"
      and eq: "map (\<lambda>d. lb_of km S d + p ! d) [0..<length S] = map (\<lambda>d. lb_of km S d + q ! d) [0..<length S]"
    have "p ! d = q ! d" if "d < length S" for d
    proof -
      from eq have "map (\<lambda>d. lb_of km S d + p ! d) [0..<length S] ! d
          = map (\<lambda>d. lb_of km S d + q ! d) [0..<length S] ! d" by (rule arg_cong)
      then show ?thesis using that by simp
    qed
    then show "p = q" using p q by (auto simp: in_box_def intro!: nth_equalityI)
  qed
  then show ?thesis
    by (simp add: visited_eq distinct_map distinct_ndindex set_ndindex)
qed

subsection \<open>The clustering helpers partition the indices\<close>

declare bisect.simps [simp del]

lemma map_snd_enumerate [simp]: "map snd (enumerate n xs) = xs"
  by (induction xs arbitrary: n) auto

lemma mset_filter_disj:
  assumes "\<And>x. x \<in> set xs \<Longrightarrow> \<not> (P x \<and> Q x)"
  shows "mset (filter P xs) + mset (filter Q xs) = mset (filter (\<lambda>x. P x \<or> Q x) xs)"
  using assms by (induction xs) auto

lemma mset_concat_filter_keys:
  assumes "distinct ks"
  shows "mset (concat (map (\<lambda>c. filter (\<lambda>i. g i = c) xs) ks)) = mset (filter (\<lambda>i. g i \<in> set ks) xs)"
  using assms
proof (induction ks)
  case Nil
  show ?case by simp
next
  case (Cons k ks)
  have "mset (filter (\<lambda>i. g i = k) xs) + mset (filter (\<lambda>i. g i \<in> set ks) xs)
      = mset (filter (\<lambda>i. g i = k \<or> g i \<in> set ks) xs)"
    using Cons.prems by (intro mset_filter_disj) auto
  then show ?case using Cons by simp
qed

lemma grid_cluster_partition:
  "mset (concat (map snd (grid_cluster x bbox_dim))) = mset [0..<length x]"
proof -
  let ?cells = "map (cell_of bbox_dim) x"
  have "mset (concat (map (\<lambda>c. filter (\<lambda>i. ?cells ! i = c) [0..<length x]) (remdups ?cells)))
      = mset (filter (\<lambda>i. ?cells ! i \<in> set (remdups ?cells)) [0..<length x])"
    by (rule mset_concat_filter_keys) simp
  also have "filter (\<lambda>i. ?cells ! i \<in> set (remdups ?cells)) [0..<length x] = [0..<length x]"
    by (rule filter_True) (auto intro!: imageI nth_mem)
  finally show ?thesis by (simp add: grid_cluster_def Let_def)
qed

lemma grid_cluster_nonempty:
  assumes "c \<in> set (map snd (grid_cluster x bbox_dim))"
  shows "c \<noteq> []"
proof -
  let ?cells = "map (cell_of bbox_dim) x"
  from assms obtain k where k: "k \<in> set ?cells"
    and c: "c = filter (\<lambda>i. ?cells ! i = k) [0..<length x]"
    by (auto simp: grid_cluster_def Let_def)
  from k obtain i where "i < length x" "?cells ! i = k"
    by (metis in_set_conv_nth length_map)
  then have "i \<in> set c" using c by simp
  then show ?thesis by auto
qed

lemma bisect_partition: "mset (concat (bisect x N_max idx)) = mset idx"
proof (induction x N_max idx rule: bisect.induct)
  case (1 x N_max idx)
  show ?case
  proof (cases "length idx \<le> N_max \<or> length idx < 2")
    case True
    then show ?thesis by (subst bisect.simps) simp
  next
    case False
    define d where "d = longest_axis (map (\<lambda>i. x ! i) idx)"
    define srt where "srt = sort_key (\<lambda>i. x ! i ! d) idx"
    define h where "h = length idx div 2"
    have step: "bisect x N_max idx = bisect x N_max (take h srt) @ bisect x N_max (drop h srt)"
      using False by (subst bisect.simps) (simp add: d_def srt_def h_def Let_def)
    have "mset (concat (bisect x N_max idx)) = mset (take h srt) + mset (drop h srt)"
      using "1.IH"(1) [OF False d_def srt_def h_def] "1.IH"(2) [OF False d_def srt_def h_def]
      by (simp add: step)
    also have "\<dots> = mset srt" by (metis append_take_drop_id mset_append)
    finally show ?thesis by (simp add: srt_def)
  qed
qed

lemma bisect_nonempty: "idx \<noteq> [] \<Longrightarrow> c \<in> set (bisect x N_max idx) \<Longrightarrow> c \<noteq> []"
proof (induction x N_max idx rule: bisect.induct)
  case (1 x N_max idx)
  show ?case
  proof (cases "length idx \<le> N_max \<or> length idx < 2")
    case True
    then have "bisect x N_max idx = [idx]" by (subst bisect.simps) simp
    then show ?thesis using "1.prems" by simp
  next
    case False
    define d where "d = longest_axis (map (\<lambda>i. x ! i) idx)"
    define srt where "srt = sort_key (\<lambda>i. x ! i ! d) idx"
    define h where "h = length idx div 2"
    have step: "bisect x N_max idx = bisect x N_max (take h srt) @ bisect x N_max (drop h srt)"
      using False by (subst bisect.simps) (simp add: d_def srt_def h_def Let_def)
    have len: "length srt = length idx" by (simp add: srt_def)
    have ne1: "take h srt \<noteq> []" and ne2: "drop h srt \<noteq> []"
      using False len by (auto simp: h_def)
    from "1.prems"(2) step
    consider "c \<in> set (bisect x N_max (take h srt))" | "c \<in> set (bisect x N_max (drop h srt))"
      by auto
    then show ?thesis
    proof cases
      case 1
      then show ?thesis using "1.IH"(1) [OF False d_def srt_def h_def ne1] by simp
    next
      case 2
      then show ?thesis using "1.IH"(2) [OF False d_def srt_def h_def ne2] by simp
    qed
  qed
qed

lemma bisect_cluster_partition:
  "mset (concat (map snd (bisect_cluster x clusters N_max))) = mset (concat (map snd clusters))"
proof -
  have "mset (concat (concat (map (\<lambda>(c_idx, idx). bisect x n idx) cs))) = mset (concat (map snd cs))"
    for n and cs :: "(nat \<times> nat list) list"
    by (induction cs) (auto simp: bisect_partition)
  then show ?thesis by (simp add: bisect_cluster_def)
qed

lemma bisect_cluster_nonempty:
  assumes "\<And>c. c \<in> set (map snd clusters) \<Longrightarrow> c \<noteq> []"
    and "c \<in> set (map snd (bisect_cluster x clusters N_max))"
  shows "c \<noteq> []"
proof -
  from assms(2) obtain k idx where kin: "(k, idx) \<in> set clusters"
    and cin: "c \<in> set (bisect x (nat N_max) idx)"
    by (auto simp: bisect_cluster_def)
  from kin have "idx \<noteq> []" using assms(1) [of idx] by force
  then show ?thesis using cin by (rule bisect_nonempty)
qed

lemma clusters_partition:
  "mset (concat (map snd (clusters_of x bbox_dim N_max))) = mset [0..<length x]"
  by (simp add: clusters_of_def bisect_cluster_partition grid_cluster_partition)

lemma clusters_nonempty:
  "c \<in> set (map snd (clusters_of x bbox_dim N_max)) \<Longrightarrow> c \<noteq> []"
  unfolding clusters_of_def
  by (rule bisect_cluster_nonempty [OF grid_cluster_nonempty])

lemma clusters_index_bound:
  assumes "c \<in> set (map snd (clusters_of x bbox_dim N_max))" and "i \<in> set c"
  shows "i < length x"
proof -
  from assms have "i \<in> set (concat (map snd (clusters_of x bbox_dim N_max)))" by auto
  then have "i \<in># mset (concat (map snd (clusters_of x bbox_dim N_max)))" by simp
  then have "i \<in># mset [0..<length x]" by (simp only: clusters_partition)
  then show ?thesis by simp
qed

subsection \<open>The cluster metadata\<close>

lemma active_indices_eq:
  "active_indices x z kern =
     filter (\<lambda>i. is_active (start z) (stop z) (map support kern) (x ! i)) [0..<length x]"
  by (auto simp: active_indices_exact Let_def intro!: filter_cong)

lemma active_indices_bound: "i \<in> set (active_indices x z kern) \<Longrightarrow> i < length x"
  by (simp add: active_indices_eq)

lemma distinct_active_indices: "distinct (active_indices x z kern)"
  by (simp add: active_indices_eq)

lemma build_info_entry:
  assumes "(c, cl) \<in> set (build_info x z kern kw)"
  defines "a2g \<equiv> active_indices x z kern"
  defines "s \<equiv> map support kern"
  shows "\<exists>xi. xi \<in> set (map snd (clusters_of (map (\<lambda>i. x ! i) a2g)
                  (map (\<lambda>sd. (2 * sd) * max_window_ratio kw) s) (max_cluster_size kw))) \<and>
          x_idx cl = map (\<lambda>i. a2g ! i) xi \<and>
          z_anchor cl = map (\<lambda>d. fst (window_idx z s (map (\<lambda>i. x ! i) (x_idx cl)) d)) [0..<length kern] \<and>
          z_num cl = map (\<lambda>d. snd (window_idx z s (map (\<lambda>i. x ! i) (x_idx cl)) d)
                              - fst (window_idx z s (map (\<lambda>i. x ! i) (x_idx cl)) d) + 1) [0..<length kern]"
proof -
  let ?xa = "map (\<lambda>i. x ! i) a2g"
  let ?cs = "clusters_of ?xa (map (\<lambda>sd. (2 * sd) * max_window_ratio kw) s) (max_cluster_size kw)"
  from assms(1) obtain xi where xi: "(c, xi) \<in> set ?cs"
    and cl: "cl = \<lparr>x_idx = map (\<lambda>i. a2g ! i) xi,
                   z_anchor = map fst (map (window_idx z s (map (\<lambda>i. ?xa ! i) xi)) [0..<length kern]),
                   z_num = map (\<lambda>(LL_idx, UR_idx). UR_idx - LL_idx + 1)
                             (map (window_idx z s (map (\<lambda>i. ?xa ! i) xi)) [0..<length kern])\<rparr>"
    by (auto simp: build_info_exact Let_def clusters_of_def a2g_def s_def split: if_splits)
  have in_cs: "xi \<in> set (map snd ?cs)" using xi by force
  have bound: "i < length a2g" if "i \<in> set xi" for i
    using clusters_index_bound [OF in_cs that] by simp
  have xq: "map (\<lambda>i. ?xa ! i) xi = map (\<lambda>i. x ! (a2g ! i)) xi"
    using bound by simp
  have in_cs': "xi \<in> snd ` set ?cs" using in_cs by simp
  show ?thesis
    by (rule exI [of _ xi]) (simp add: in_cs' cl xq comp_def case_prod_unfold)
qed

lemma build_info_x_idx:
  "mset (concat (map (\<lambda>(c, cl). x_idx cl) (build_info x z kern kw))) = mset (active_indices x z kern)"
proof -
  define a2g where "a2g = active_indices x z kern"
  let ?xa = "map (\<lambda>i. x ! i) a2g"
  let ?cs = "clusters_of ?xa (map (\<lambda>sd. (2 * sd) * max_window_ratio kw) (map support kern))
                (max_cluster_size kw)"
  show ?thesis
  proof (cases "a2g = []")
    case True
    then show ?thesis by (simp add: build_info_exact Let_def a2g_def)
  next
    case False
    have "concat (map (\<lambda>(c, cl). x_idx cl) (build_info x z kern kw))
        = map (\<lambda>i. a2g ! i) (concat (map snd ?cs))"
      using False
      by (simp add: build_info_exact Let_def a2g_def clusters_of_def map_concat comp_def case_prod_unfold)
    then have "mset (concat (map (\<lambda>(c, cl). x_idx cl) (build_info x z kern kw)))
        = image_mset (\<lambda>i. a2g ! i) (mset (concat (map snd ?cs)))"
      by simp
    also have "\<dots> = image_mset (\<lambda>i. a2g ! i) (mset [0..<length a2g])"
      by (simp only: clusters_partition length_map)
    also have "\<dots> = mset (map (\<lambda>i. a2g ! i) [0..<length a2g])" by simp
    also have "\<dots> = mset a2g" by (simp only: map_nth)
    finally show ?thesis by (simp add: a2g_def)
  qed
qed

lemma build_info_keys: "distinct (map fst (build_info x z kern kw))"
proof -
  have "map fst (map (\<lambda>(c, xi). (c, f c xi)) cs) = map fst cs" for f :: "nat \<Rightarrow> nat list \<Rightarrow> cluster_info" and cs
    by (induction cs) auto
  moreover have "distinct (map fst (bisect_cluster xa cs n))" for xa cs n
    by (simp add: bisect_cluster_def)
  ultimately show ?thesis
    by (simp add: build_info_exact Let_def case_prod_unfold comp_def)
qed

subsection \<open>The sub-grid window of a cluster\<close>

lemma window_idx_degenerate:
  assumes "num z ! d = 1"
  shows "window_idx z s xq d = (0, 0)"
  using assms by (simp add: window_idx_exact Let_def)

lemma window_idx_bounds:
  assumes ok: "lattice_axis_ok (start z ! d) (stop z ! d) (num z ! d)"
    and s: "0 < s ! d" and ne: "xq \<noteq> []"
    and act: "\<And>p. p \<in> set xq \<Longrightarrow> start z ! d - s ! d \<le> p ! d \<and> p ! d \<le> stop z ! d + s ! d"
  shows "0 \<le> fst (window_idx z s xq d)"
    and "snd (window_idx z s xq d) \<le> num z ! d - 1"
    and "fst (window_idx z s xq d) \<le> snd (window_idx z s xq d)"
proof -
  define \<alpha> \<beta> N where "\<alpha> = start z ! d" and "\<beta> = stop z ! d" and "N = num z ! d"
  define mn mx where "mn = Min (set (map (\<lambda>p. p ! d) xq))" and "mx = Max (set (map (\<lambda>p. p ! d) xq))"
  define r where "r = (if N > 1 then real_of_int (N - 1) / (\<beta> - \<alpha>) else real_of_int (N - 1))"
  have w: "window_idx z s xq d =
      (max 0 \<lfloor>(mn - s ! d - \<alpha>) * r\<rfloor>, min \<lceil>(mx + s ! d - \<alpha>) * r\<rceil> (N - 1))"
    by (simp add: window_idx_exact Let_def \<alpha>_def \<beta>_def N_def mn_def mx_def r_def)
  have N1: "N \<ge> 1" and ab: "\<alpha> \<le> \<beta>" and deg: "\<alpha> = \<beta> \<Longrightarrow> N = 1"
    using ok by (auto simp: lattice_axis_ok_def \<alpha>_def \<beta>_def N_def split: if_splits)
  have fin: "finite (set (map (\<lambda>p. p ! d) xq))" "set (map (\<lambda>p. p ! d) xq) \<noteq> {}"
    using ne by auto
  have "mn \<in> set (map (\<lambda>p. p ! d) xq)" unfolding mn_def by (rule Min_in [OF fin])
  then have mn_hi: "mn \<le> \<beta> + s ! d" using act by (auto simp: \<beta>_def)
  have "mx \<in> set (map (\<lambda>p. p ! d) xq)" unfolding mx_def by (rule Max_in [OF fin])
  then have mx_lo: "\<alpha> - s ! d \<le> mx" using act by (auto simp: \<alpha>_def)
  have mnmx: "mn \<le> mx"
    using Max_ge [OF fin(1) \<open>mn \<in> set (map (\<lambda>p. p ! d) xq)\<close>] by (simp add: mx_def)
  show "0 \<le> fst (window_idx z s xq d)" by (simp add: w)
  show "snd (window_idx z s xq d) \<le> num z ! d - 1" by (simp add: w N_def)
  have r0: "0 \<le> r" using N1 ab by (auto simp: r_def)
  have lo_le: "\<lfloor>(mn - s ! d - \<alpha>) * r\<rfloor> \<le> N - 1"
  proof (cases "N > 1")
    case True
    then have lt: "\<alpha> < \<beta>" using ab deg by fastforce
    have "(mn - s ! d - \<alpha>) * r \<le> (\<beta> - \<alpha>) * r"
      using mn_hi r0 by (intro mult_right_mono) auto
    also have "\<dots> = real_of_int (N - 1)" using lt True by (simp add: r_def)
    finally have "\<lfloor>(mn - s ! d - \<alpha>) * r\<rfloor> \<le> \<lfloor>real_of_int (N - 1)\<rfloor>" by (rule floor_mono)
    then show ?thesis by simp
  next
    case False
    then show ?thesis using N1 by (simp add: r_def)
  qed
  have hi_ge: "0 \<le> \<lceil>(mx + s ! d - \<alpha>) * r\<rceil>"
  proof -
    have "0 \<le> (mx + s ! d - \<alpha>) * r" using mx_lo r0 by (intro mult_nonneg_nonneg) auto
    then show ?thesis by (simp add: le_ceiling_iff)
  qed
  have lo_hi: "\<lfloor>(mn - s ! d - \<alpha>) * r\<rfloor> \<le> \<lceil>(mx + s ! d - \<alpha>) * r\<rceil>"
  proof -
    have "(mn - s ! d - \<alpha>) * r \<le> (mx + s ! d - \<alpha>) * r"
      using mnmx s r0 by (intro mult_right_mono) auto
    then show ?thesis by (meson ceiling_mono floor_le_ceiling floor_mono order_trans)
  qed
  show "fst (window_idx z s xq d) \<le> snd (window_idx z s xq d)"
    using lo_le hi_ge lo_hi N1 by (simp add: w)
qed


lemma node_range:
  assumes ok: "lattice_axis_ok (start z ! d) (stop z ! d) (num z ! d)"
    and n: "int n < num z ! d"
  shows "start z ! d \<le> node z d n" and "node z d n \<le> stop z ! d"
proof -
  define \<alpha> \<beta> N where "\<alpha> = start z ! d" and "\<beta> = stop z ! d" and "N = num z ! d"
  have N1: "N \<ge> 1" and ab: "\<alpha> \<le> \<beta>"
    using ok by (auto simp: lattice_axis_ok_def \<alpha>_def \<beta>_def N_def split: if_splits)
  show "start z ! d \<le> node z d n"
    using N1 ab by (auto simp: node_def \<alpha>_def \<beta>_def N_def intro!: mult_nonneg_nonneg divide_nonneg_nonneg)
  show "node z d n \<le> stop z ! d"
  proof (cases "N = 1")
    case True
    then show ?thesis using ab by (simp add: node_def \<alpha>_def \<beta>_def N_def)
  next
    case False
    then have pos: "0 < real_of_int (N - 1)" using N1 by simp
    have "real n \<le> real_of_int (N - 1)" using n by (simp add: N_def)
    then have "real n * ((\<beta> - \<alpha>) / real_of_int (N - 1)) \<le> real_of_int (N - 1) * ((\<beta> - \<alpha>) / real_of_int (N - 1))"
      using ab pos by (intro mult_right_mono divide_nonneg_nonneg) auto
    also have "\<dots> = \<beta> - \<alpha>" using pos by simp
    finally show ?thesis using False by (simp add: node_def \<alpha>_def \<beta>_def N_def)
  qed
qed

lemma window_idx_covers:
  assumes ok: "lattice_axis_ok (start z ! d) (stop z ! d) (num z ! d)"
    and p: "p \<in> set xq"
    and n: "int n < num z ! d"
    and near: "\<bar>node z d n - p ! d\<bar> \<le> s ! d"
  shows "fst (window_idx z s xq d) \<le> int n \<and> int n \<le> snd (window_idx z s xq d)"
proof -
  define \<alpha> \<beta> N where "\<alpha> = start z ! d" and "\<beta> = stop z ! d" and "N = num z ! d"
  define mn mx where "mn = Min (set (map (\<lambda>p. p ! d) xq))" and "mx = Max (set (map (\<lambda>p. p ! d) xq))"
  define r where "r = (if N > 1 then real_of_int (N - 1) / (\<beta> - \<alpha>) else real_of_int (N - 1))"
  have w: "window_idx z s xq d =
      (max 0 \<lfloor>(mn - s ! d - \<alpha>) * r\<rfloor>, min \<lceil>(mx + s ! d - \<alpha>) * r\<rceil> (N - 1))"
    by (simp add: window_idx_exact Let_def \<alpha>_def \<beta>_def N_def mn_def mx_def r_def)
  have N1: "N \<ge> 1" and ab: "\<alpha> \<le> \<beta>" and deg: "\<alpha> = \<beta> \<Longrightarrow> N = 1"
    using ok by (auto simp: lattice_axis_ok_def \<alpha>_def \<beta>_def N_def split: if_splits)
  have fin: "finite (set (map (\<lambda>p. p ! d) xq))" by simp
  have pin: "p ! d \<in> set (map (\<lambda>p. p ! d) xq)" using p by simp
  have mn_le: "mn \<le> p ! d" unfolding mn_def by (rule Min_le [OF fin pin])
  have le_mx: "p ! d \<le> mx" unfolding mx_def by (rule Max_ge [OF fin pin])
  show ?thesis
  proof (cases "N > 1")
    case False
    then have "N = 1" using N1 by simp
    then show ?thesis using n by (simp add: w r_def N_def)
  next
    case True
    then have lt: "\<alpha> < \<beta>" using ab deg by fastforce
    have rpos: "0 < r" using True lt by (simp add: r_def)
    have nd: "node z d n = \<alpha> + real n / r"
      using True lt by (simp add: node_def \<alpha>_def \<beta>_def N_def r_def)
    have lo: "(mn - s ! d - \<alpha>) * r \<le> real n"
    proof -
      have "mn - s ! d - \<alpha> \<le> real n / r" using near mn_le nd by linarith
      then have "(mn - s ! d - \<alpha>) * r \<le> real n / r * r" using rpos by (intro mult_right_mono) auto
      then show ?thesis using rpos by simp
    qed
    have hi: "real n \<le> (mx + s ! d - \<alpha>) * r"
    proof -
      have "real n / r \<le> mx + s ! d - \<alpha>" using near le_mx nd by linarith
      then have "real n / r * r \<le> (mx + s ! d - \<alpha>) * r" using rpos by (intro mult_right_mono) auto
      then show ?thesis using rpos by simp
    qed
    have "\<lfloor>(mn - s ! d - \<alpha>) * r\<rfloor> \<le> int n"
      using floor_mono [OF lo] by simp
    moreover have "int n \<le> \<lceil>(mx + s ! d - \<alpha>) * r\<rceil>"
      using ceiling_mono [OF hi] by simp
    ultimately show ?thesis using n by (simp add: w N_def)
  qed
qed

subsection \<open>Constructed operators\<close>

lemma init_wf:
  assumes "init env x z kern ew kw = Inr op"
  shows "wf_op op"
proof -
  note f = init_Inr [OF assms]
  have "\<forall>d<codim_rank op. 0 < support (op_kernel op ! d)"
    using f(5) f(4) f(11) by (auto simp: codim_rank_def)
  then show ?thesis
    unfolding wf_op_def Let_def codim_rank_def
    using f(2,4,7,9,11,12,16,18) by simp
qed

lemma init_cl_info:
  assumes "init env x z kern ew kw = Inr op"
  shows "op_cl_info op =
           build_info_fl exact_arith (rows_of (op_x op)) (op_z op) (op_kernel op) (op_kwargs op)"
  using init_Inr(18) [OF assms] by (simp add: build_info_def)

lemma length_rows_of [simp]: "length (rows_of a) = shape a ! 0"
  by (simp add: rows_of_def)

lemma length_row [simp]: "m < shape a ! 0 \<Longrightarrow> length (rows_of a ! m) = shape a ! 1"
  by (simp add: rows_of_def)

lemma active_set_eq:
  "active_set op = set (active_indices (rows_of (op_x op)) (op_z op) (op_kernel op))"
  by (auto simp: active_set_def active_indices_eq dim_size_def)

lemma is_active_iff:
  "is_active alpha beta s p =
     (\<forall>d<length p. alpha ! d - s ! d \<le> p ! d \<and> p ! d \<le> beta ! d + s ! d)"
  by (auto simp: is_active_exact list_all_iff)

lemma cluster_facts:
  assumes wf: "wf_op op" and cl: "(c, cl) \<in> set (op_cl_info op)"
  defines "D \<equiv> codim_rank op"
  defines "s \<equiv> map support (op_kernel op)"
  defines "xq \<equiv> map (\<lambda>i. rows_of (op_x op) ! i) (x_idx cl)"
  shows "x_idx cl \<noteq> []"
    and "set (x_idx cl) \<subseteq> active_set op"
    and "length (z_anchor cl) = D" and "length (z_num cl) = D"
    and "d < D \<Longrightarrow> z_anchor cl ! d = fst (window_idx (op_z op) s xq d)"
    and "d < D \<Longrightarrow> z_num cl ! d = snd (window_idx (op_z op) s xq d) - fst (window_idx (op_z op) s xq d) + 1"
    and "d < D \<Longrightarrow> 0 \<le> z_anchor cl ! d \<and> 1 \<le> z_num cl ! d \<and>
           z_anchor cl ! d + z_num cl ! d \<le> num (op_z op) ! d"
    and "d < D \<Longrightarrow> m \<in> set (x_idx cl) \<Longrightarrow> int n < num (op_z op) ! d \<Longrightarrow>
           \<bar>node (op_z op) d n - rows_of (op_x op) ! m ! d\<bar> \<le> support (op_kernel op ! d) \<Longrightarrow>
           z_anchor cl ! d \<le> int n \<and> int n < z_anchor cl ! d + z_num cl ! d"
proof -
  let ?x = "rows_of (op_x op)" and ?z = "op_z op" and ?k = "op_kernel op" and ?kw = "op_kwargs op"
  let ?a2g = "active_indices ?x ?z ?k"
  have bi: "(c, cl) \<in> set (build_info ?x ?z ?k ?kw)"
    using wf cl by (simp add: wf_op_def Let_def)
  have lenk: "length ?k = D" and D0: "0 < D" and shD: "shape (op_x op) ! 1 = D"
    and ok: "\<And>d. d < D \<Longrightarrow> lattice_axis_ok (start ?z ! d) (stop ?z ! d) (num ?z ! d)"
    and sp: "\<And>d. d < D \<Longrightarrow> 0 < support (?k ! d)"
    using wf by (simp_all add: wf_op_def Let_def D_def)
  from build_info_entry [OF bi] obtain xi where
    xi: "xi \<in> set (map snd (clusters_of (map (\<lambda>i. ?x ! i) ?a2g)
                  (map (\<lambda>sd. (2 * sd) * max_window_ratio ?kw) (map support ?k)) (max_cluster_size ?kw)))"
    and xidx: "x_idx cl = map (\<lambda>i. ?a2g ! i) xi"
    and anc: "z_anchor cl = map (\<lambda>d. fst (window_idx ?z s xq d)) [0..<length ?k]"
    and znum: "z_num cl = map (\<lambda>d. snd (window_idx ?z s xq d) - fst (window_idx ?z s xq d) + 1) [0..<length ?k]"
    unfolding s_def xq_def by blast
  have xi_ne: "xi \<noteq> []" by (rule clusters_nonempty [OF xi])
  then show ne: "x_idx cl \<noteq> []" by (simp add: xidx)
  have xi_bd: "i < length ?a2g" if "i \<in> set xi" for i
    using clusters_index_bound [OF xi that] by simp
  show act: "set (x_idx cl) \<subseteq> active_set op"
    using xi_bd by (auto simp: xidx active_set_eq)
  show "length (z_anchor cl) = D" "length (z_num cl) = D" by (simp_all add: anc znum lenk)
  show a: "z_anchor cl ! d = fst (window_idx ?z s xq d)" if "d < D" for d
    using that by (simp add: anc lenk)
  show b: "z_num cl ! d = snd (window_idx ?z s xq d) - fst (window_idx ?z s xq d) + 1" if "d < D" for d
    using that by (simp add: znum lenk)
  have xq_ne: "xq \<noteq> []" using ne by (simp add: xq_def)
  have xq_act: "start ?z ! d - s ! d \<le> p ! d \<and> p ! d \<le> stop ?z ! d + s ! d"
    if "d < D" "p \<in> set xq" for p d
  proof -
    from that(2) obtain m where m: "m \<in> set (x_idx cl)" and p: "p = ?x ! m" by (auto simp: xq_def)
    from m act have "m < dim_size op" and ia: "is_active (start ?z) (stop ?z) (map support ?k) (?x ! m)"
      by (auto simp: active_set_def)
    then have "length (?x ! m) = D" using shD by (simp add: dim_size_def)
    with ia that(1) show ?thesis by (simp add: is_active_iff p s_def)
  qed
  show "0 \<le> z_anchor cl ! d \<and> 1 \<le> z_num cl ! d \<and> z_anchor cl ! d + z_num cl ! d \<le> num ?z ! d"
    if "d < D" for d
  proof -
    have sd: "0 < s ! d" using sp [OF that] that by (simp add: s_def lenk)
    note wb = window_idx_bounds [OF ok [OF that] sd xq_ne xq_act [OF that]]
    show ?thesis using wb by (simp add: a [OF that] b [OF that])
  qed
  show "z_anchor cl ! d \<le> int n \<and> int n < z_anchor cl ! d + z_num cl ! d"
    if "d < D" "m \<in> set (x_idx cl)" "int n < num ?z ! d"
      "\<bar>node ?z d n - ?x ! m ! d\<bar> \<le> support (?k ! d)" for d m n
  proof -
    have pin: "?x ! m \<in> set xq" using that(2) by (simp add: xq_def)
    have near: "\<bar>node ?z d n - (?x ! m) ! d\<bar> \<le> s ! d" using that(1,4) by (simp add: s_def lenk)
    from window_idx_covers [OF ok [OF that(1)] pin that(3) near]
    show ?thesis by (simp add: a [OF that(1)] b [OF that(1)])
  qed
qed

lemma distinct_concat_disjoint:
  "distinct (concat xs) \<Longrightarrow> i < j \<Longrightarrow> j < length xs \<Longrightarrow> set (xs ! i) \<inter> set (xs ! j) = {}"
proof (induction xs arbitrary: i j)
  case Nil
  then show ?case by simp
next
  case (Cons y ys)
  show ?case
  proof (cases i)
    case 0
    then obtain j' where j: "j = Suc j'" using Cons.prems(2) by (cases j) auto
    have "ys ! j' \<in> set ys" using Cons.prems(3) j by (intro nth_mem) simp
    then have "set (ys ! j') \<subseteq> set (concat ys)" by auto
    then show ?thesis using Cons.prems(1) 0 j by auto
  next
    case (Suc i')
    then obtain j' where j: "j = Suc j'" using Cons.prems(2) by (cases j) auto
    show ?thesis using Cons.IH [of i' j'] Cons.prems Suc j by simp
  qed
qed

lemma info_x_idx_distinct:
  assumes "wf_op op"
  shows "distinct (concat (map (\<lambda>(c, cl). x_idx cl) (op_cl_info op)))"
    and "set (concat (map (\<lambda>(c, cl). x_idx cl) (op_cl_info op))) = active_set op"
proof -
  let ?L = "concat (map (\<lambda>(c, cl). x_idx cl) (op_cl_info op))"
  let ?a = "active_indices (rows_of (op_x op)) (op_z op) (op_kernel op)"
  have m: "mset ?L = mset ?a"
    using assms build_info_x_idx [of "rows_of (op_x op)" "op_z op" "op_kernel op" "op_kwargs op"]
    by (simp add: wf_op_def Let_def)
  show "distinct ?L" using mset_eq_imp_distinct_iff [OF m] distinct_active_indices by simp
  show "set ?L = active_set op" using mset_eq_setD [OF m] by (simp add: active_set_eq)
qed

text \<open>
  C3.  The cluster metadata of a constructed operator partitions the active point indices:
  every active index lies in the \<open>x_idx\<close> of exactly one cluster, and the \<open>x_idx\<close> of a
  cluster holds active indices only and none of them twice.  (The clusters come from the
  clustering helpers as modelled from the specification.)
\<close>

theorem cluster_partition:
  assumes "init env x z kern ew kw = Inr op"
  shows "(\<forall>m\<in>active_set op.
            \<exists>!i. i < length (op_cl_info op) \<and> m \<in> set (x_idx (snd (op_cl_info op ! i)))) \<and>
         (\<forall>i<length (op_cl_info op).
            set (x_idx (snd (op_cl_info op ! i))) \<subseteq> active_set op \<and>
            distinct (x_idx (snd (op_cl_info op ! i))))"
proof -
  have wf: "wf_op op" using assms by (rule init_wf)
  let ?xs = "map (\<lambda>e. x_idx (snd e)) (op_cl_info op)"
  have d: "distinct (concat ?xs)" and s: "set (concat ?xs) = active_set op"
    using info_x_idx_distinct [OF wf] by (simp_all add: case_prod_unfold)
  have nth: "?xs ! i = x_idx (snd (op_cl_info op ! i))" if "i < length (op_cl_info op)" for i
    using that by simp
  have len: "length ?xs = length (op_cl_info op)" by simp
  have part2: "set (x_idx (snd (op_cl_info op ! i))) \<subseteq> active_set op \<and>
      distinct (x_idx (snd (op_cl_info op ! i)))" if "i < length (op_cl_info op)" for i
  proof -
    have mem: "?xs ! i \<in> set ?xs" using that by (intro nth_mem) simp
    then have "set (?xs ! i) \<subseteq> set (concat ?xs)" by auto
    moreover have "distinct (?xs ! i)" using d mem by (auto simp: distinct_concat_iff)
    ultimately show ?thesis using s nth [OF that] by simp
  qed
  have part1: "\<exists>!i. i < length (op_cl_info op) \<and> m \<in> set (x_idx (snd (op_cl_info op ! i)))"
    if "m \<in> active_set op" for m
  proof -
    from that s have "m \<in> set (concat ?xs)" by simp
    then obtain ys where "ys \<in> set ?xs" "m \<in> set ys" by auto
    then obtain i where i: "i < length ?xs" "m \<in> set (?xs ! i)" by (metis in_set_conv_nth)
    show ?thesis
    proof (rule ex1I [of _ i])
      show "i < length (op_cl_info op) \<and> m \<in> set (x_idx (snd (op_cl_info op ! i)))"
        using i nth [of i] by simp
    next
      fix j assume j: "j < length (op_cl_info op) \<and> m \<in> set (x_idx (snd (op_cl_info op ! j)))"
      then have mj: "m \<in> set (?xs ! j)" and lj: "j < length ?xs" using nth [of j] by simp_all
      show "j = i"
      proof (rule ccontr)
        assume "j \<noteq> i"
        then consider "i < j" | "j < i" by linarith
        then have "set (?xs ! i) \<inter> set (?xs ! j) = {}"
        proof cases
          case 1
          then show ?thesis using distinct_concat_disjoint [OF d 1 lj] by simp
        next
          case 2
          then show ?thesis using distinct_concat_disjoint [OF d 2 i(1)] by auto
        qed
        then show False using mj i(2) by auto
      qed
    qed
  qed
  show ?thesis using part1 part2 by blast
qed

lemma ex_cl_info: "op_cl_info ex_op = [(0, \<lparr>x_idx = [0, 1], z_anchor = [0], z_num = [5]\<rparr>)]"
  unfolding ex_op_def by simp code_simp

lemma ex_active: "active_set ex_op = {0, 1}"
proof -
  have "active_indices (rows_of (op_x ex_op)) (op_z ex_op) (op_kernel ex_op) = [0, 1]"
    unfolding ex_op_def by simp code_simp
  then show ?thesis by (simp add: active_set_eq) 
qed

theorem cluster_partition_witness:
  "init ex_env ex_x ex_z [tri] True ex_kw = Inr ex_op \<and>
   active_set ex_op = {0, 1} \<and>
   op_cl_info ex_op = [(0, \<lparr>x_idx = [0, 1], z_anchor = [0], z_num = [5]\<rparr>)] \<and>
   (\<exists>!i. i < length (op_cl_info ex_op) \<and> 1 \<in> set (x_idx (snd (op_cl_info ex_op ! i)))) \<and>
   set (x_idx (snd (op_cl_info ex_op ! 0))) \<subseteq> active_set ex_op \<and>
   distinct (x_idx (snd (op_cl_info ex_op ! 0)))"
proof -
  have a: "(1::nat) \<in> active_set ex_op" by (simp add: ex_active)
  have b: "(0::nat) < length (op_cl_info ex_op)" by (simp add: ex_cl_info)
  from cluster_partition [OF ex_init] a b ex_init ex_active ex_cl_info
  show ?thesis by blast
qed

lemma build_info_fl_entry:
  assumes "(c, cl) \<in> set (build_info_fl ar x z kern kw)"
  defines "a2g \<equiv> active_indices_fl ar x z kern"
  defines "s \<equiv> map support kern"
  shows "\<exists>xi. xi \<in> set (map snd (clusters_of (map (\<lambda>i. x ! i) a2g)
                  (map (\<lambda>sd. fmul ar (fmul ar 2 sd) (max_window_ratio kw)) s) (max_cluster_size kw))) \<and>
          x_idx cl = map (\<lambda>i. a2g ! i) xi \<and>
          z_anchor cl = map (\<lambda>d. fst (window_idx_fl ar z s (map (\<lambda>i. x ! i) (x_idx cl)) d)) [0..<length kern] \<and>
          z_num cl = map (\<lambda>d. snd (window_idx_fl ar z s (map (\<lambda>i. x ! i) (x_idx cl)) d)
                              - fst (window_idx_fl ar z s (map (\<lambda>i. x ! i) (x_idx cl)) d) + 1) [0..<length kern]"
proof -
  let ?xa = "map (\<lambda>i. x ! i) a2g"
  let ?cs = "clusters_of ?xa (map (\<lambda>sd. fmul ar (fmul ar 2 sd) (max_window_ratio kw)) s) (max_cluster_size kw)"
  from assms(1) obtain xi where xi: "(c, xi) \<in> set ?cs"
    and cl: "cl = \<lparr>x_idx = map (\<lambda>i. a2g ! i) xi,
                   z_anchor = map fst (map (window_idx_fl ar z s (map (\<lambda>i. ?xa ! i) xi)) [0..<length kern]),
                   z_num = map (\<lambda>(LL_idx, UR_idx). UR_idx - LL_idx + 1)
                             (map (window_idx_fl ar z s (map (\<lambda>i. ?xa ! i) xi)) [0..<length kern])\<rparr>"
    by (auto simp: build_info_fl_def Let_def clusters_of_def a2g_def s_def split: if_splits)
  have in_cs: "xi \<in> set (map snd ?cs)" using xi by force
  have bound: "i < length a2g" if "i \<in> set xi" for i
    using clusters_index_bound [OF in_cs that] by simp
  have xq: "map (\<lambda>i. ?xa ! i) xi = map (\<lambda>i. x ! (a2g ! i)) xi"
    using bound by simp
  have in_cs': "xi \<in> snd ` set ?cs" using in_cs by simp
  show ?thesis
    by (rule exI [of _ xi]) (simp add: in_cs' cl xq comp_def case_prod_unfold)
qed

text \<open>
  C5 (amended).  For the metadata \<^verbatim>\<open>_build_info\<close> computes, under any floating-point
  arithmetic: a cluster has a member, and on every axis its sub-grid starts at
  \<open>floor((LL - alpha) * ratio)\<close> raised to 0 and ends at \<open>ceil((UR - alpha) * ratio)\<close>
  lowered to \<open>N - 1\<close>, where \<open>LL\<close> and \<open>UR\<close> are the least and the greatest member coordinate
  minus and plus the support, \<open>ratio = (N - 1) / (beta - alpha)\<close>, or \<open>N - 1\<close> when
  \<open>N \<le> 1\<close>, and every operation is the one of the arithmetic: the bounds are the floor and
  the ceiling of rounded products, not a rounding to the nearest index.  The start is never
  below 0, and the end is never above \<open>N - 1\<close> when \<open>N - 1\<close> converts to a float exactly.
  In exact arithmetic, for a lattice axis and a support that construction accepts, the
  sub-grid has at least one node, lies within \<open>[0, N - 1]\<close>, and contains every lattice node
  within the support of any member point.  (The operators of this theory hold the metadata of
  exact arithmetic: lemma \<open>init_cl_info\<close>.)
\<close>

theorem cluster_window:
  assumes "(c, cl) \<in> set (build_info_fl ar x z kern kw)" and "d < length kern"
  shows "(let s = support (kern ! d);
              alpha = start z ! d;
              beta = stop z ! d;
              N = num z ! d;
              coords = (\<lambda>m. x ! m ! d) ` set (x_idx cl);
              LL = fsub ar (Min coords) s;
              UR = fadd ar (Max coords) s;
              ratio = fsub ar (fint ar N) 1;
              ratio = (if N > 1 then fdiv ar ratio (fsub ar beta alpha) else ratio);
              first = z_anchor cl ! d;
              last = z_anchor cl ! d + z_num cl ! d - 1
          in x_idx cl \<noteq> [] \<and>
             first = max 0 \<lfloor>fmul ar (fsub ar LL alpha) ratio\<rfloor> \<and>
             last = min \<lceil>fmul ar (fsub ar UR alpha) ratio\<rceil> \<lfloor>fint ar (N - 1)\<rfloor> \<and>
             0 \<le> first \<and>
             (\<lfloor>fint ar (N - 1)\<rfloor> = N - 1 \<longrightarrow> last \<le> N - 1) \<and>
             (ar = exact_arith \<and> lattice_axis_ok alpha beta N \<and> 0 < s \<and>
              (\<forall>p\<in>set x. length p = length kern) \<longrightarrow>
                first \<le> last \<and> last \<le> N - 1 \<and>
                (\<forall>m\<in>set (x_idx cl). \<forall>n. int n < N \<longrightarrow> \<bar>node z d n - x ! m ! d\<bar> \<le> s \<longrightarrow>
                   first \<le> int n \<and> int n \<le> last)))"
proof -
  define a2g where "a2g = active_indices_fl ar x z kern"
  define sv where "sv = map support kern"
  define xq where "xq = map (\<lambda>i. x ! i) (x_idx cl)"
  define coords where "coords = (\<lambda>m. x ! m ! d) ` set (x_idx cl)"
  define r0 where "r0 = fsub ar (fint ar (num z ! d)) 1"
  define r where "r = (if num z ! d > 1 then fdiv ar r0 (fsub ar (stop z ! d) (start z ! d)) else r0)"
  define lo where "lo = max 0 \<lfloor>fmul ar (fsub ar (fsub ar (Min coords) (support (kern ! d))) (start z ! d)) r\<rfloor>"
  define hi where "hi = min \<lceil>fmul ar (fsub ar (fadd ar (Max coords) (support (kern ! d))) (start z ! d)) r\<rceil>
                           \<lfloor>fint ar (num z ! d - 1)\<rfloor>"
  from build_info_fl_entry [OF assms(1)] obtain xi where
    xi: "xi \<in> set (map snd (clusters_of (map (\<lambda>i. x ! i) a2g)
                  (map (\<lambda>sd. fmul ar (fmul ar 2 sd) (max_window_ratio kw)) sv) (max_cluster_size kw)))"
    and xidx: "x_idx cl = map (\<lambda>i. a2g ! i) xi"
    and anc: "z_anchor cl = map (\<lambda>d. fst (window_idx_fl ar z sv xq d)) [0..<length kern]"
    and znum: "z_num cl = map (\<lambda>d. snd (window_idx_fl ar z sv xq d) - fst (window_idx_fl ar z sv xq d) + 1)
                            [0..<length kern]"
    unfolding a2g_def sv_def xq_def by blast
  have xi_ne: "xi \<noteq> []" by (rule clusters_nonempty [OF xi])
  then have ne: "x_idx cl \<noteq> []" by (simp add: xidx)
  have xi_bd: "i < length a2g" if "i \<in> set xi" for i
    using clusters_index_bound [OF xi that] by simp
  have mem: "set (x_idx cl) \<subseteq> set a2g" using xi_bd by (auto simp: xidx)
  have cs: "set (map (\<lambda>p. p ! d) xq) = coords" by (auto simp: xq_def coords_def)
  have svd: "sv ! d = support (kern ! d)" using assms(2) by (simp add: sv_def)
  have w: "window_idx_fl ar z sv xq d = (lo, hi)"
    unfolding window_idx_fl_def Let_def cs svd lo_def hi_def r_def r0_def ..
  have a: "z_anchor cl ! d = lo" using assms(2) by (simp add: anc w)
  have b: "z_anchor cl ! d + z_num cl ! d - 1 = hi" using assms(2) by (simp add: anc znum w)
  have lo0: "0 \<le> lo" by (simp add: lo_def)
  have hiN: "hi \<le> num z ! d - 1" if "\<lfloor>fint ar (num z ! d - 1)\<rfloor> = num z ! d - 1"
    using that by (simp add: hi_def)
  have ex: "lo \<le> hi \<and> hi \<le> num z ! d - 1 \<and>
      (\<forall>m\<in>set (x_idx cl). \<forall>n. int n < num z ! d \<longrightarrow>
          \<bar>node z d n - x ! m ! d\<bar> \<le> support (kern ! d) \<longrightarrow> lo \<le> int n \<and> int n \<le> hi)"
    if e: "ar = exact_arith" and ok: "lattice_axis_ok (start z ! d) (stop z ! d) (num z ! d)"
      and sp: "0 < support (kern ! d)" and len: "\<forall>p\<in>set x. length p = length kern"
  proof -
    have we: "window_idx z sv xq d = (lo, hi)" using w e by (simp add: window_idx_def)
    have ag: "a2g = active_indices x z kern" using e by (simp add: a2g_def active_indices_def)
    have sd: "0 < sv ! d" using sp svd by simp
    have xq_ne: "xq \<noteq> []" using ne by (simp add: xq_def)
    have act: "start z ! d - sv ! d \<le> p ! d \<and> p ! d \<le> stop z ! d + sv ! d" if "p \<in> set xq" for p
    proof -
      from that obtain m where m: "m \<in> set (x_idx cl)" and p: "p = x ! m" by (auto simp: xq_def)
      from m mem have ma: "m \<in> set (active_indices x z kern)" using ag by auto
      then have ml: "m < length x" and ia: "is_active (start z) (stop z) sv (x ! m)"
        by (simp_all add: active_indices_eq sv_def)
      have "length (x ! m) = length kern" using len ml by simp
      with ia assms(2) show ?thesis by (simp add: is_active_iff p)
    qed
    note wb = window_idx_bounds [OF ok sd xq_ne act]
    have "lo \<le> hi" "hi \<le> num z ! d - 1" using wb by (simp_all add: we)
    moreover have "lo \<le> int n \<and> int n \<le> hi"
      if "m \<in> set (x_idx cl)" "int n < num z ! d" "\<bar>node z d n - x ! m ! d\<bar> \<le> support (kern ! d)"
      for m n
    proof -
      have pin: "x ! m \<in> set xq" using that(1) by (simp add: xq_def)
      have near: "\<bar>node z d n - (x ! m) ! d\<bar> \<le> sv ! d" using that(3) by (simp add: svd)
      from window_idx_covers [OF ok pin that(2) near] show ?thesis by (simp add: we)
    qed
    ultimately show ?thesis by blast
  qed
  have main: "x_idx cl \<noteq> [] \<and>
      z_anchor cl ! d = lo \<and>
      z_anchor cl ! d + z_num cl ! d - 1 = hi \<and>
      0 \<le> z_anchor cl ! d \<and>
      (\<lfloor>fint ar (num z ! d - 1)\<rfloor> = num z ! d - 1 \<longrightarrow>
         z_anchor cl ! d + z_num cl ! d - 1 \<le> num z ! d - 1) \<and>
      (ar = exact_arith \<and> lattice_axis_ok (start z ! d) (stop z ! d) (num z ! d) \<and>
       0 < support (kern ! d) \<and> (\<forall>p\<in>set x. length p = length kern) \<longrightarrow>
         z_anchor cl ! d \<le> z_anchor cl ! d + z_num cl ! d - 1 \<and>
         z_anchor cl ! d + z_num cl ! d - 1 \<le> num z ! d - 1 \<and>
         (\<forall>m\<in>set (x_idx cl). \<forall>n. int n < num z ! d \<longrightarrow>
            \<bar>node z d n - x ! m ! d\<bar> \<le> support (kern ! d) \<longrightarrow>
            z_anchor cl ! d \<le> int n \<and> int n \<le> z_anchor cl ! d + z_num cl ! d - 1))"
    unfolding a b [unfolded a] using ne lo0 hiN ex by blast
  from main show ?thesis
    unfolding Let_def lo_def hi_def r_def r0_def coords_def .
qed

lemma ex_off_init: "init ex_env ex_x_off ex_z [tri] True ex_kw = Inr ex_op_off"
  by (simp add: init_def ex_env_def coerce_def astype_def points_2d_def ndim_def ex_x_off_def
      ex_z_def tri_def ex_kw_def ex_op_off_def newaxis_def as_seq_def broadcast_def
      canonical_kwargs_def lattice_axis_ok_def Let_def)

lemma ex_off_cl_info:
  "op_cl_info ex_op_off = [(0, \<lparr>x_idx = [0], z_anchor = [0], z_num = [4]\<rparr>)]"
  unfolding ex_op_off_def by simp code_simp

text \<open>
  C5 as stated fails: for the single point \<open>1.6\<close> the stored anchor is \<open>0 = floor(0.6)\<close>,
  while rounding \<open>(LL - alpha) / step = 0.6\<close> to the nearest integer gives \<open>1\<close>.
\<close>

theorem cluster_window_counterexample:
  "init ex_env ex_x_off ex_z [tri] True ex_kw = Inr ex_op_off \<and>
   op_cl_info ex_op_off = [(0, \<lparr>x_idx = [0], z_anchor = [0], z_num = [4]\<rparr>)] \<and>
   spec_window_idx (op_z ex_op_off) (map support (op_kernel ex_op_off))
      (map (\<lambda>i. rows_of (op_x ex_op_off) ! i) [0]) 0 = (1, 3)"
proof -
  have "spec_window_idx (op_z ex_op_off) (map support (op_kernel ex_op_off))
      (map (\<lambda>i. rows_of (op_x ex_op_off) ! i) [0]) 0 = (1, 3)"
    unfolding ex_op_off_def by simp code_simp
  then show ?thesis using ex_off_init ex_off_cl_info by simp
qed

lemma ex_off_rows: "rows_of (newaxis ex_x_off) = [[8 / 5]]"
  by (simp add: rows_of_def newaxis_def ex_x_off_def)

lemma ex_off_member:
  "(0, \<lparr>x_idx = [0], z_anchor = [0], z_num = [4]\<rparr>)
     \<in> set (build_info_fl exact_arith [[8 / 5]] ex_z [tri] (canonical_kwargs ex_kw))"
proof -
  have eq: "build_info_fl exact_arith [[8 / 5]] ex_z [tri] (canonical_kwargs ex_kw)
      = op_cl_info ex_op_off"
    by (simp add: ex_op_off_def build_info_def ex_off_rows)
  show ?thesis unfolding eq ex_off_cl_info by simp
qed

theorem cluster_window_witness:
  "(0, \<lparr>x_idx = [0], z_anchor = [0], z_num = [4]\<rparr>)
     \<in> set (build_info_fl exact_arith [[8 / 5]] ex_z [tri] (canonical_kwargs ex_kw)) \<and>
   (0::nat) < length [tri] \<and>
   max 0 \<lfloor>(8 / 5 - 1 - 0) * ((5 - 1) / (4 - 0)) :: real\<rfloor> = 0 \<and>
   min \<lceil>(8 / 5 + 1 - 0) * ((5 - 1) / (4 - 0)) :: real\<rceil> (5 - 1) = 3 \<and>
   lattice_axis_ok 0 4 5 \<and> \<bar>node ex_z 0 1 - 8 / 5\<bar> \<le> 1"
proof -
  have n: "node ex_z 0 1 = 1" by (simp add: node_def ex_z_def)
  from cluster_window [OF ex_off_member, of 0] ex_off_member n
  show ?thesis
    by (simp add: Let_def exact_arith_def ex_z_def tri_def lattice_axis_ok_def)
qed

subsection \<open>The compiled kernels as sums\<close>

lemma fold_prod: "fold (\<lambda>d k. k * f d) [0..<n] (a::real) = a * (\<Prod>d<n. f d)"
  by (induction n arbitrary: a) (simp_all add: algebra_simps)

lemma kernel_weight_prod: "kernel_weight km idx = (\<Prod>d<length idx. km ! d ! (idx ! d))"
  by (simp add: kernel_weight_def fold_prod)

lemma f_spread_sum:
  "f_spread w kern S out n =
     out n + (\<Sum>m\<leftarrow>[0..<length w]. \<Sum>idx\<leftarrow>visited (kern ! m) S.
                if idx = n then kernel_weight (kern ! m) idx * w ! m else 0)"
  unfolding f_spread_def Let_def
  by (rule fold_fold_add) (rule fold_upd_add [where key = "\<lambda>idx. idx"])

lemma f_interpolate_sum:
  "f_interpolate v kern S M out m' =
     out m' + (\<Sum>m\<leftarrow>[0..<M]. \<Sum>idx\<leftarrow>visited (kern ! m) S.
                 if m = m' then kernel_weight (kern ! m) idx * v idx else 0)"
  unfolding f_interpolate_def Let_def
  by (rule fold_fold_add) (rule fold_upd_add [where key = "\<lambda>idx. m" for m])

lemma sum_list_if_eq:
  "(\<Sum>m\<leftarrow>[0..<M]. if m = m' then f m else (0::real)) = (if m' < M then f m' else 0)"
  by (induction M) auto

lemma f_interpolate_at:
  assumes "m < M"
  shows "f_interpolate v kern S M (\<lambda>_. 0) m =
           (\<Sum>idx\<leftarrow>visited (kern ! m) S. kernel_weight (kern ! m) idx * v idx)"
proof -
  have "(\<Sum>k\<leftarrow>[0..<M]. \<Sum>idx\<leftarrow>visited (kern ! k) S.
                 if k = m then kernel_weight (kern ! k) idx * v idx else 0)
      = (\<Sum>k\<leftarrow>[0..<M]. if k = m then (\<Sum>idx\<leftarrow>visited (kern ! k) S. kernel_weight (kern ! k) idx * v idx) else 0)"
    by (intro arg_cong [where f = sum_list] map_cong refl) (simp add: sum_list_0)
  then show ?thesis using assms by (simp add: f_interpolate_sum sum_list_if_eq)
qed

subsection \<open>Python slices within range\<close>

lemma py_slice_inside:
  assumes "0 \<le> a" and "0 \<le> n" and "a + n \<le> int N"
  shows "py_slice N a (a + n) = map (\<lambda>j. nat a + j) [0..<nat n]"
proof (rule nth_equalityI)
  have lo: "(if a < 0 then max 0 (a + int N) else min a (int N)) = a" using assms by auto
  have hi: "(if a + n < 0 then max 0 (a + n + int N) else min (a + n) (int N)) = a + n"
    using assms by auto
  have eq: "py_slice N a (a + n) = map nat [a..a + n - 1]"
    unfolding py_slice_def Let_def lo hi ..
  show "length (py_slice N a (a + n)) = length (map (\<lambda>j. nat a + j) [0..<nat n])"
    using assms by (simp add: eq)
  fix i assume "i < length (py_slice N a (a + n))"
  then have i: "i < nat n" using assms by (simp add: eq)
  then have "[a..a + n - 1] ! i = a + int i" by (intro nth_upto) linarith
  then show "py_slice N a (a + n) ! i = map (\<lambda>j. nat a + j) [0..<nat n] ! i"
    using i assms by (simp add: eq nat_add_distrib)
qed

subsection \<open>One cluster of a constructed operator\<close>

lemma cluster_roi:
  assumes wf: "wf_op op" and cl: "(c, cl) \<in> set (op_cl_info op)" and d: "d < codim_rank op"
  shows "roi_indices op (roi_of cl) ! d =
           map (\<lambda>j. nat (z_anchor cl ! d) + j) [0..<nat (z_num cl ! d)]"
proof -
  note cf = cluster_facts [OF wf cl]
  have len: "length (z_anchor cl) = codim_rank op" "length (z_num cl) = codim_rank op"
    using cf(3,4) by simp_all
  have roi: "roi_of cl ! d = Some (z_anchor cl ! d, z_anchor cl ! d + z_num cl ! d)"
    using d len by (simp add: roi_of_def)
  have N: "int (codim_shape op ! d) = num (op_z op) ! d"
    using d cf(7) [OF d] by (simp add: codim_shape_def codim_rank_def)
  have "roi_indices op (roi_of cl) ! d
      = py_slice (codim_shape op ! d) (z_anchor cl ! d) (z_anchor cl ! d + z_num cl ! d)"
    using d by (simp add: roi_indices_def roi apply_slice_def)
  also have "\<dots> = map (\<lambda>j. nat (z_anchor cl ! d) + j) [0..<nat (z_num cl ! d)]"
    using cf(7) [OF d] N by (intro py_slice_inside) auto
  finally show ?thesis .
qed

lemma cluster_roi_index:
  assumes wf: "wf_op op" and cl: "(c, cl) \<in> set (op_cl_info op)"
    and idx: "in_box (map nat (z_num cl)) idx"
  shows "roi_index op cl idx = map (\<lambda>d. nat (z_anchor cl ! d) + idx ! d) [0..<codim_rank op]"
proof -
  note cf = cluster_facts [OF wf cl]
  have "ri ! d ! (idx ! d) = nat (z_anchor cl ! d) + idx ! d"
    if "d < codim_rank op" "ri = roi_indices op (roi_of cl)" for d ri
  proof -
    have "idx ! d < nat (z_num cl ! d)" using idx that(1) cf(4) by (auto simp: in_box_def)
    then show ?thesis using cluster_roi [OF wf cl that(1)] that(2) by simp
  qed
  then show ?thesis using cf(4) by (simp add: roi_index_def Let_def)
qed

lemma cluster_roi_index_in_box:
  assumes wf: "wf_op op" and cl: "(c, cl) \<in> set (op_cl_info op)"
    and idx: "in_box (map nat (z_num cl)) idx"
  shows "in_box (codim_shape op) (roi_index op cl idx)"
proof -
  note cf = cluster_facts [OF wf cl]
  have "nat (z_anchor cl ! d) + idx ! d < nat (num (op_z op) ! d)" if "d < codim_rank op" for d
  proof -
    have "idx ! d < nat (z_num cl ! d)" using idx that cf(4) by (auto simp: in_box_def)
    then show ?thesis using cf(7) [OF that] by linarith
  qed
  then show ?thesis
    by (simp add: cluster_roi_index [OF wf cl idx] in_box_def codim_shape_def codim_rank_def)
qed

lemma cluster_roi_index_inj:
  assumes wf: "wf_op op" and cl: "(c, cl) \<in> set (op_cl_info op)"
  shows "inj_on (roi_index op cl) {idx. in_box (map nat (z_num cl)) idx}"
proof (rule inj_onI)
  fix p q
  assume p: "p \<in> {idx. in_box (map nat (z_num cl)) idx}"
    and q: "q \<in> {idx. in_box (map nat (z_num cl)) idx}"
    and eq: "roi_index op cl p = roi_index op cl q"
  note cf = cluster_facts [OF wf cl]
  have e: "map (\<lambda>d. nat (z_anchor cl ! d) + p ! d) [0..<codim_rank op]
         = map (\<lambda>d. nat (z_anchor cl ! d) + q ! d) [0..<codim_rank op]"
    using eq p q by (simp add: cluster_roi_index [OF wf cl])
  have "p ! d = q ! d" if "d < codim_rank op" for d
  proof -
    from e have "map (\<lambda>d. nat (z_anchor cl ! d) + p ! d) [0..<codim_rank op] ! d
         = map (\<lambda>d. nat (z_anchor cl ! d) + q ! d) [0..<codim_rank op] ! d" by (rule arg_cong)
    then show ?thesis using that by simp
  qed
  then show "p = q" using p q cf(4) by (auto simp: in_box_def intro!: nth_equalityI)
qed

lemma cluster_lattice:
  assumes wf: "wf_op op" and cl: "(c, cl) \<in> set (op_cl_info op)" and d: "d < codim_rank op"
  shows "lattice (op_z op) (roi_of cl) ! d =
           map (\<lambda>j. node (op_z op) d (nat (z_anchor cl ! d) + j)) [0..<nat (z_num cl ! d)]"
proof -
  have "apply_slice (nat (num (op_z op) ! d)) (roi_of cl ! d) = roi_indices op (roi_of cl) ! d"
    using d by (simp add: roi_indices_def codim_shape_def codim_rank_def)
  then show ?thesis
    using d by (simp add: lattice_def Let_def node_def codim_rank_def cluster_roi [OF wf cl d])
qed

lemma cluster_kernel_nth:
  assumes wf: "wf_op op" and cl: "(c, cl) \<in> set (op_cl_info op)" and d: "d < codim_rank op"
    and j: "j < length (x_idx cl)"
  shows "nat (z_num cl ! d) \<le> length (cluster_kernel op cl ! j ! d)"
    and "i < nat (z_num cl ! d) \<Longrightarrow>
           cluster_kernel op cl ! j ! d ! i =
             call (op_kernel op ! d)
               (node (op_z op) d (nat (z_anchor cl ! d) + i) - rows_of (op_x op) ! (x_idx cl ! j) ! d)"
proof -
  note cf = cluster_facts [OF wf cl]
  let ?S = "map nat (z_num cl)"
  have lenS: "length ?S = codim_rank op" using cf(4) by simp
  have row: "cluster_kernel op cl ! j ! d =
      map (\<lambda>zc. call (op_kernel op ! d) (zc - rows_of (op_x op) ! (x_idx cl ! j) ! d))
        (lattice (op_z op) (roi_of cl) ! d) @ replicate (Max (set ?S) - ?S ! d) 0"
    using j d lenS by (simp add: cluster_kernel_def Let_def kernel_weights_def)
  show "nat (z_num cl ! d) \<le> length (cluster_kernel op cl ! j ! d)"
    by (simp add: row cluster_lattice [OF wf cl d])
  show "cluster_kernel op cl ! j ! d ! i =
             call (op_kernel op ! d)
               (node (op_z op) d (nat (z_anchor cl ! d) + i) - rows_of (op_x op) ! (x_idx cl ! j) ! d)"
    if "i < nat (z_num cl ! d)"
    using that by (simp add: row cluster_lattice [OF wf cl d] nth_append)
qed

lemma cluster_kernel_weight:
  assumes wf: "wf_op op" and cl: "(c, cl) \<in> set (op_cl_info op)"
    and j: "j < length (x_idx cl)" and idx: "in_box (map nat (z_num cl)) idx"
  shows "kernel_weight (cluster_kernel op cl ! j) idx = weight op (x_idx cl ! j) (roi_index op cl idx)"
proof -
  note cf = cluster_facts [OF wf cl]
  have len: "length idx = codim_rank op" using idx cf(4) by (simp add: in_box_def)
  have "cluster_kernel op cl ! j ! d ! (idx ! d) =
      call (op_kernel op ! d)
        (node (op_z op) d (roi_index op cl idx ! d) - rows_of (op_x op) ! (x_idx cl ! j) ! d)"
    if "d < codim_rank op" for d
  proof -
    have "idx ! d < nat (z_num cl ! d)" using idx that cf(4) by (auto simp: in_box_def)
    then show ?thesis
      using cluster_kernel_nth(2) [OF wf cl that j] that
      by (simp add: cluster_roi_index [OF wf cl idx])
  qed
  then show ?thesis by (simp add: kernel_weight_prod weight_def len)
qed

lemma cluster_visited:
  assumes wf: "wf_op op" and cl: "(c, cl) \<in> set (op_cl_info op)" and j: "j < length (x_idx cl)"
  shows "set (visited (cluster_kernel op cl ! j) (map nat (z_num cl))) \<subseteq> {idx. in_box (map nat (z_num cl)) idx}"
    and "in_box (map nat (z_num cl)) idx \<Longrightarrow>
           idx \<notin> set (visited (cluster_kernel op cl ! j) (map nat (z_num cl))) \<Longrightarrow>
           kernel_weight (cluster_kernel op cl ! j) idx = 0"
proof -
  note cf = cluster_facts [OF wf cl]
  let ?S = "map nat (z_num cl)" and ?km = "cluster_kernel op cl ! j"
  have lenS: "length ?S = codim_rank op" using cf(4) by simp
  have le: "?S ! d \<le> length (?km ! d)" if "d < length ?S" for d
    using cluster_kernel_nth(1) [OF wf cl _ j, of d] that lenS cf(4) by simp
  have lbub: "lb_of ?km ?S d \<le> ub_of ?km ?S d" if "d < length ?S" for d
    using bounds_spec(1) [OF le [OF that]] .
  note sv = set_visited [of ?S ?km, OF lbub]
  show "set (visited ?km ?S) \<subseteq> {idx. in_box ?S idx}"
  proof
    fix idx assume "idx \<in> set (visited ?km ?S)"
    with sv have "idx \<in> {idx. length idx = length ?S \<and>
        (\<forall>d<length ?S. lb_of ?km ?S d \<le> idx ! d \<and> idx ! d < ub_of ?km ?S d)}" by blast
    then have l: "length idx = length ?S"
      and b: "\<And>d. d < length ?S \<Longrightarrow> idx ! d < ub_of ?km ?S d" by blast+
    have "idx ! d < ?S ! d" if "d < length ?S" for d
      using b [OF that] bounds_spec(2) [OF le [OF that]] by linarith
    then show "idx \<in> {idx. in_box ?S idx}" using l by (simp add: in_box_def)
  qed
  show "kernel_weight ?km idx = 0" if ib: "in_box ?S idx" and nv: "idx \<notin> set (visited ?km ?S)"
  proof -
    have l: "length idx = length ?S" using ib by (simp add: in_box_def)
    from nv sv have "idx \<notin> {idx. length idx = length ?S \<and>
        (\<forall>d<length ?S. lb_of ?km ?S d \<le> idx ! d \<and> idx ! d < ub_of ?km ?S d)}" by blast
    with l obtain d where d: "d < length ?S"
      and out: "idx ! d < lb_of ?km ?S d \<or> ub_of ?km ?S d \<le> idx ! d"
      by (fastforce simp: not_le not_less)
    have "idx ! d < ?S ! d" using ib d by (simp add: in_box_def)
    then have "?km ! d ! (idx ! d) = 0" using bounds_spec(3) [OF le [OF d] _ out] by simp
    moreover have "d \<in> {..<length idx}" using d l by simp
    ultimately show ?thesis
      unfolding kernel_weight_prod by (intro prod_zero) auto
  qed
qed

subsection \<open>Spreading and interpolating one cluster\<close>

lemma sum_list_upt_sum: "(\<Sum>m\<leftarrow>[0..<n]. f m) = (\<Sum>m<n. f m)"
  by (simp add: interv_sum_list_conv_sum_set_nat atLeast0LessThan)

lemma sum_list_visited:
  "(\<Sum>idx\<leftarrow>visited km S. f idx) = (\<Sum>idx\<in>set (visited km S). f idx)"
  by (rule sum_list_distinct_conv_sum_set [OF distinct_visited])

lemma sum_pick:
  assumes "finite A" and "b \<in> A"
  shows "(\<Sum>a\<in>A. if P a then (if b = a then t else 0) else 0) = (if P b then t else (0::real))"
proof -
  have "(\<Sum>a\<in>A. if P a then (if b = a then t else 0) else 0)
      = (\<Sum>a\<in>A. if a = b then (if P b then t else 0) else 0)"
    by (intro sum.cong) auto
  also have "\<dots> = (if P b then t else 0)" using assms by (simp add: sum.delta)
  finally show ?thesis .
qed

lemma spread_elems:
  assumes wf: "wf_op op" and cl: "(c, cl) \<in> set (op_cl_info op)"
  shows "elems (spread op w out cl) n =
     elems out n +
     (\<Sum>j<length (x_idx cl). \<Sum>idx\<in>set (visited (cluster_kernel op cl ! j) (map nat (z_num cl))).
        if roi_index op cl idx = n
        then kernel_weight (cluster_kernel op cl ! j) idx * elems w [x_idx cl ! j] else 0)"
proof -
  let ?S = "map nat (z_num cl)" and ?ck = "cluster_kernel op cl"
  let ?wq = "map (\<lambda>i. elems w [i]) (x_idx cl)"
  let ?V = "\<lambda>j. set (visited (?ck ! j) ?S)"
  let ?T = "\<lambda>j idx. kernel_weight (?ck ! j) idx * elems w [x_idx cl ! j]"
  define v where "v = f_spread ?wq ?ck ?S (\<lambda>_. 0)"
  have v: "v idx' = (\<Sum>j<length (x_idx cl). \<Sum>idx\<in>?V j. if idx = idx' then ?T j idx else 0)" for idx'
  proof -
    have "v idx' = (\<Sum>j\<leftarrow>[0..<length (x_idx cl)]. \<Sum>idx\<leftarrow>visited (?ck ! j) ?S.
                if idx = idx' then kernel_weight (?ck ! j) idx * ?wq ! j else 0)"
      by (simp add: v_def f_spread_sum)
    also have "\<dots> = (\<Sum>j<length (x_idx cl). \<Sum>idx\<in>?V j.
                if idx = idx' then kernel_weight (?ck ! j) idx * ?wq ! j else 0)"
      by (simp only: sum_list_upt_sum sum_list_visited)
    also have "\<dots> = (\<Sum>j<length (x_idx cl). \<Sum>idx\<in>?V j. if idx = idx' then ?T j idx else 0)"
      by (intro sum.cong refl) simp
    finally show ?thesis .
  qed
  have "elems (spread op w out cl) n
      = elems out n + (\<Sum>idx'\<leftarrow>ndindex ?S. if roi_index op cl idx' = n then v idx' else 0)"
    unfolding spread_def Let_def v_def [symmetric]
    by (simp add: fold_upd_add [where key = "roi_index op cl" and val = v])
  also have "(\<Sum>idx'\<leftarrow>ndindex ?S. if roi_index op cl idx' = n then v idx' else 0)
      = (\<Sum>idx'\<in>{idx. in_box ?S idx}. if roi_index op cl idx' = n then v idx' else 0)"
    by (rule sum_list_ndindex)
  also have "\<dots> = (\<Sum>idx'\<in>{idx. in_box ?S idx}. \<Sum>j<length (x_idx cl). \<Sum>idx\<in>?V j.
        if roi_index op cl idx' = n then (if idx = idx' then ?T j idx else 0) else 0)"
    by (intro sum.cong refl) (simp add: v)
  also have "\<dots> = (\<Sum>j<length (x_idx cl). \<Sum>idx'\<in>{idx. in_box ?S idx}. \<Sum>idx\<in>?V j.
        if roi_index op cl idx' = n then (if idx = idx' then ?T j idx else 0) else 0)"
    by (rule sum.swap)
  also have "\<dots> = (\<Sum>j<length (x_idx cl). \<Sum>idx\<in>?V j. \<Sum>idx'\<in>{idx. in_box ?S idx}.
        if roi_index op cl idx' = n then (if idx = idx' then ?T j idx else 0) else 0)"
    by (rule sum.cong [OF refl]) (rule sum.swap)
  also have "\<dots> = (\<Sum>j<length (x_idx cl). \<Sum>idx\<in>?V j.
        if roi_index op cl idx = n then ?T j idx else 0)"
  proof (intro sum.cong refl)
    fix j idx assume "j \<in> {..<length (x_idx cl)}" "idx \<in> ?V j"
    then have "idx \<in> {idx. in_box ?S idx}" using cluster_visited(1) [OF wf cl, of j] by auto
    then show "(\<Sum>idx'\<in>{idx. in_box ?S idx}.
        if roi_index op cl idx' = n then (if idx = idx' then ?T j idx else 0) else 0)
        = (if roi_index op cl idx = n then ?T j idx else 0)"
      by (intro sum_pick finite_in_box)
  qed
  finally show ?thesis .
qed

lemma spread_frame [simp]:
  "shape (spread op w out cl) = shape out" "dtype (spread op w out cl) = dtype out"
  by (simp_all add: spread_def Let_def)

lemma interpolate_frame [simp]:
  "shape (interpolate op v out cl) = shape out" "dtype (interpolate op v out cl) = dtype out"
  by (simp_all add: interpolate_def Let_def)

lemma fold_assign:
  "fold (\<lambda>j e. e(key j := val j)) js e n =
     (if n \<in> key ` set js then fold (\<lambda>j e. e(key j := val j)) js e n else e n)"
  by (induction js arbitrary: e) auto

lemma fold_assign_sum:
  assumes "distinct (map key js)" and "\<And>j. j \<in> set js \<Longrightarrow> e (key j) = 0"
  shows "fold (\<lambda>j e. e(key j := val j)) js e n
     = e n + (\<Sum>j\<leftarrow>js. if key j = n then val j else (0::real))"
  using assms
proof (induction js arbitrary: e)
  case Nil
  show ?case by simp
next
  case (Cons j js)
  have ne: "key j' \<noteq> key j" if "j' \<in> set js" for j'
    using Cons.prems(1) that by (auto simp: image_iff)
  have "fold (\<lambda>j e. e(key j := val j)) js (e(key j := val j)) n
      = (e(key j := val j)) n + (\<Sum>j\<leftarrow>js. if key j = n then val j else 0)"
  proof (rule Cons.IH)
    show "distinct (map key js)" using Cons.prems(1) by simp
    show "(e(key j := val j)) (key j') = 0" if "j' \<in> set js" for j'
      using ne [OF that] Cons.prems(2) [of j'] that by simp
  qed
  moreover have "fold (\<lambda>j e. e(key j := val j)) (j # js) e n
      = fold (\<lambda>j e. e(key j := val j)) js (e(key j := val j)) n" by simp
  moreover have "(e(key j := val j)) n + (\<Sum>j\<leftarrow>js. if key j = n then val j else 0)
      = e n + (\<Sum>j\<leftarrow>j # js. if key j = n then val j else 0)"
    using Cons.prems(2) [of j] by (cases "key j = n") simp_all
  ultimately show ?case by (simp only:)
qed

lemma interpolate_elems:
  assumes wf: "wf_op op" and cl: "(c, cl) \<in> set (op_cl_info op)"
    and d: "distinct (x_idx cl)" and z: "\<And>m. m \<in> set (x_idx cl) \<Longrightarrow> elems out [m] = 0"
  shows "elems (interpolate op v out cl) i =
     elems out i +
     (\<Sum>j<length (x_idx cl). if [x_idx cl ! j] = i
        then (\<Sum>idx\<in>set (visited (cluster_kernel op cl ! j) (map nat (z_num cl))).
                kernel_weight (cluster_kernel op cl ! j) idx * elems v (roi_index op cl idx))
        else 0)"
proof -
  let ?S = "map nat (z_num cl)" and ?ck = "cluster_kernel op cl" and ?Mq = "length (x_idx cl)"
  define wl where "wl = f_interpolate (\<lambda>idx. elems v (roi_index op cl idx)) ?ck ?S ?Mq (\<lambda>_. 0)"
  have wl: "wl j = (\<Sum>idx\<in>set (visited (?ck ! j) ?S).
        kernel_weight (?ck ! j) idx * elems v (roi_index op cl idx))" if "j < ?Mq" for j
    unfolding wl_def by (simp add: f_interpolate_at [OF that] sum_list_visited)
  have dk: "distinct (map (\<lambda>j. [x_idx cl ! j]) [0..<?Mq])"
    using d by (simp add: distinct_map inj_on_def nth_eq_iff_index_eq)
  have "elems (interpolate op v out cl) i
      = elems out i + (\<Sum>j\<leftarrow>[0..<?Mq]. if [x_idx cl ! j] = i then wl j else 0)"
  proof -
    have z': "elems out [x_idx cl ! j] = 0" if "j \<in> set [0..<?Mq]" for j
      using that by (intro z) simp
    have "elems (interpolate op v out cl) i
        = fold (\<lambda>j e. e([x_idx cl ! j] := wl j)) [0..<?Mq] (elems out) i"
      by (simp add: interpolate_def Let_def wl_def)
    also have "\<dots> = elems out i + (\<Sum>j\<leftarrow>[0..<?Mq]. if [x_idx cl ! j] = i then wl j else 0)"
      by (rule fold_assign_sum [where key = "\<lambda>j. [x_idx cl ! j]" and e = "elems out", OF dk z'])
    finally show ?thesis .
  qed
  also have "(\<Sum>j\<leftarrow>[0..<?Mq]. if [x_idx cl ! j] = i then wl j else 0)
      = (\<Sum>j<?Mq. if [x_idx cl ! j] = i then wl j else 0)"
    by (rule sum_list_upt_sum)
  also have "\<dots> = (\<Sum>j<?Mq. if [x_idx cl ! j] = i
        then (\<Sum>idx\<in>set (visited (?ck ! j) ?S).
                kernel_weight (?ck ! j) idx * elems v (roi_index op cl idx))
        else 0)"
    by (intro sum.cong refl) (simp add: wl)
  finally show ?thesis .
qed

lemma interpolate_untouched:
  assumes "\<And>m. i \<noteq> [m] \<or> m \<notin> set (x_idx cl)"
  shows "elems (interpolate op v out cl) i = elems out i"
proof -
  have "i \<notin> (\<lambda>j. [x_idx cl ! j]) ` set [0..<length (x_idx cl)]"
    using assms by (auto simp: image_iff) (metis nth_mem)
  then show ?thesis
    unfolding interpolate_def Let_def
    by (simp add: fold_assign [where n = i and key = "\<lambda>j. [x_idx cl ! j]"])
qed

subsection \<open>apply and adjoint as sums over the clusters\<close>

lemma elems_cast_warn [simp]: "elems (fst (cast_warn op arr)) = elems arr"
  by (simp add: cast_warn_def astype_def)

lemma dtype_cast_warn [simp]: "dtype (fst (cast_warn op arr)) = dtype (op_x op)"
  by (simp add: cast_warn_def astype_def)

lemma fold_spread_elems:
  assumes wf: "wf_op op" and sub: "set cls \<subseteq> set (op_cl_info op)"
  shows "elems (fold (\<lambda>(c, cl) out. spread op w out cl) cls out) n =
           elems out n + (\<Sum>(c, cl)\<leftarrow>cls. spread_part op (elems w) cl n)"
  using sub
proof (induction cls arbitrary: out)
  case Nil
  show ?case by simp
next
  case (Cons e cls)
  obtain c cl where e: "e = (c, cl)" by (cases e)
  have mem: "(c, cl) \<in> set (op_cl_info op)" using Cons.prems e by simp
  have "elems (spread op w out cl) n = elems out n + spread_part op (elems w) cl n"
    unfolding spread_part_def by (rule spread_elems [OF wf mem])
  then show ?case using Cons e by simp
qed

lemma fold_spread_frame:
  "shape (fold (\<lambda>(c, cl) out. spread op w out cl) cls out) = shape out \<and>
   dtype (fold (\<lambda>(c, cl) out. spread op w out cl) cls out) = dtype out"
  by (induction cls arbitrary: out) (auto simp: case_prod_unfold)

lemma fold_interpolate_frame:
  "shape (fold (\<lambda>(c, cl) out. interpolate op v out cl) cls out) = shape out \<and>
   dtype (fold (\<lambda>(c, cl) out. interpolate op v out cl) cls out) = dtype out"
  by (induction cls arbitrary: out) (auto simp: case_prod_unfold)

lemma apply_elems:
  assumes wf: "wf_op op"
  shows "elems (fst (apply_body op w)) n = (\<Sum>(c, cl)\<leftarrow>op_cl_info op. spread_part op (elems w) cl n)"
proof -
  obtain arr ws where cw: "cast_warn op w = (arr, ws)" by (cases "cast_warn op w")
  then have "elems arr = elems w" using elems_cast_warn [of op w] by simp
  then show ?thesis
    by (simp add: apply_body_def cw fold_spread_elems [OF wf subset_refl] zeros_def)
qed

lemma apply_frame:
  "shape (fst (apply_body op w)) = codim_shape op" "dtype (fst (apply_body op w)) = dtype (op_x op)"
proof -
  obtain arr ws where cw: "cast_warn op w = (arr, ws)" by (cases "cast_warn op w")
  then have "dtype arr = dtype (op_x op)" using dtype_cast_warn [of op w] by simp
  then show "shape (fst (apply_body op w)) = codim_shape op" "dtype (fst (apply_body op w)) = dtype (op_x op)"
    by (simp_all add: apply_body_def cw fold_spread_frame zeros_def)
qed

lemma adjoint_frame:
  "shape (fst (adjoint_body op v)) = [dim_size op]" "dtype (fst (adjoint_body op v)) = dtype (op_x op)"
proof -
  obtain arr ws where cw: "cast_warn op v = (arr, ws)" by (cases "cast_warn op v")
  then have "dtype arr = dtype (op_x op)" using dtype_cast_warn [of op v] by simp
  then show "shape (fst (adjoint_body op v)) = [dim_size op]" "dtype (fst (adjoint_body op v)) = dtype (op_x op)"
    by (simp_all add: adjoint_body_def cw fold_interpolate_frame zeros_def)
qed

lemma fold_interpolate_elems:
  assumes wf: "wf_op op" and sub: "set cls \<subseteq> set (op_cl_info op)"
    and d: "distinct (concat (map (\<lambda>e. x_idx (snd e)) cls))"
    and z: "\<And>m. m \<in> set (concat (map (\<lambda>e. x_idx (snd e)) cls)) \<Longrightarrow> elems out [m] = 0"
  shows "elems (fold (\<lambda>(c, cl) out. interpolate op v out cl) cls out) i =
           elems out i +
           (\<Sum>(c, cl)\<leftarrow>cls. \<Sum>j<length (x_idx cl).
              if [x_idx cl ! j] = i then gather_point op (elems v) cl j else 0)"
  using sub d z
proof (induction cls arbitrary: out)
  case Nil
  show ?case by simp
next
  case (Cons e cls)
  obtain c cl where e: "e = (c, cl)" by (cases e)
  have mem: "(c, cl) \<in> set (op_cl_info op)" using Cons.prems(1) e by simp
  have dcl: "distinct (x_idx cl)" using Cons.prems(2) e by simp
  have zcl: "elems out [m] = 0" if "m \<in> set (x_idx cl)" for m
    using Cons.prems(3) [of m] that e by simp
  have step: "elems (interpolate op v out cl) i' =
      elems out i' + (\<Sum>j<length (x_idx cl). if [x_idx cl ! j] = i' then gather_point op (elems v) cl j else 0)"
    for i'
    unfolding gather_point_def by (rule interpolate_elems [OF wf mem dcl zcl])
  have rest: "elems (fold (\<lambda>(c, cl) out. interpolate op v out cl) cls (interpolate op v out cl)) i =
      elems (interpolate op v out cl) i +
      (\<Sum>(c, cl)\<leftarrow>cls. \<Sum>j<length (x_idx cl).
              if [x_idx cl ! j] = i then gather_point op (elems v) cl j else 0)"
  proof (rule Cons.IH)
    show "set cls \<subseteq> set (op_cl_info op)" using Cons.prems(1) by simp
    show "distinct (concat (map (\<lambda>e. x_idx (snd e)) cls))" using Cons.prems(2) by simp
    fix m assume m: "m \<in> set (concat (map (\<lambda>e. x_idx (snd e)) cls))"
    then have "m \<notin> set (x_idx cl)" using Cons.prems(2) e by auto
    then have "elems (interpolate op v out cl) [m] = elems out [m]"
      by (intro interpolate_untouched) auto
    then show "elems (interpolate op v out cl) [m] = 0" using Cons.prems(3) [of m] m by simp
  qed
  show ?case using rest step [of i] e by simp
qed

lemma adjoint_elems:
  assumes wf: "wf_op op"
  shows "elems (fst (adjoint_body op v)) i =
           (\<Sum>(c, cl)\<leftarrow>op_cl_info op. \<Sum>j<length (x_idx cl).
              if [x_idx cl ! j] = i then gather_point op (elems v) cl j else 0)"
proof -
  obtain arr ws where cw: "cast_warn op v = (arr, ws)" by (cases "cast_warn op v")
  then have ea: "elems arr = elems v" using elems_cast_warn [of op v] by simp
  have d: "distinct (concat (map (\<lambda>e. x_idx (snd e)) (op_cl_info op)))"
    using info_x_idx_distinct(1) [OF wf] by (simp add: case_prod_unfold)
  have "elems (fold (\<lambda>(c, cl) out. interpolate op arr out cl) (op_cl_info op)
                (zeros [dim_size op] (dtype arr))) i =
        elems (zeros [dim_size op] (dtype arr)) i +
           (\<Sum>(c, cl)\<leftarrow>op_cl_info op. \<Sum>j<length (x_idx cl).
              if [x_idx cl ! j] = i then gather_point op (elems arr) cl j else 0)"
    by (rule fold_interpolate_elems [OF wf subset_refl d]) (simp add: zeros_def)
  then show ?thesis unfolding ea by (simp add: adjoint_body_def cw zeros_def)
qed

lemma sum_list_sum_swap:
  "(\<Sum>n\<in>A. (\<Sum>x\<leftarrow>xs. f x n) * (g n :: real)) = (\<Sum>x\<leftarrow>xs. \<Sum>n\<in>A. f x n * g n)"
  by (induction xs) (simp_all add: sum.distrib algebra_simps)

lemma sum_pick_eq:
  assumes "finite A" and "b \<in> A"
  shows "(\<Sum>a\<in>A. (if b = a then t else 0) * g a) = t * (g b :: real)"
proof -
  have "(\<Sum>a\<in>A. (if b = a then t else 0) * g a) = (\<Sum>a\<in>A. if a = b then t * g a else 0)"
    by (intro sum.cong) auto
  then show ?thesis using assms by (simp add: sum.delta)
qed

lemma inner_sum: "inner sh a b = (\<Sum>n\<in>{idx. in_box sh idx}. a n * b n)"
  by (simp add: inner_def sum_list_ndindex)

lemma sum_list_cong_mem:
  assumes "\<And>e. e \<in> set xs \<Longrightarrow> f e = (g e :: real)"
  shows "(\<Sum>e\<leftarrow>xs. f e) = (\<Sum>e\<leftarrow>xs. g e)"
  using assms by (induction xs) auto

lemma inner_apply:
  assumes wf: "wf_op op"
  shows "inner (codim_shape op) (elems (fst (apply_body op w))) v = pairing op (elems w) v"
proof -
  let ?B = "{idx. in_box (codim_shape op) idx}"
  have "inner (codim_shape op) (elems (fst (apply_body op w))) v
      = (\<Sum>n\<in>?B. (\<Sum>e\<leftarrow>op_cl_info op. spread_part op (elems w) (snd e) n) * v n)"
    by (simp add: inner_sum apply_elems [OF wf] case_prod_unfold)
  also have "\<dots> = (\<Sum>e\<leftarrow>op_cl_info op. \<Sum>n\<in>?B. spread_part op (elems w) (snd e) n * v n)"
    by (rule sum_list_sum_swap)
  also have "\<dots> = (\<Sum>e\<leftarrow>op_cl_info op. \<Sum>j<length (x_idx (snd e)).
        \<Sum>idx\<in>set (visited (cluster_kernel op (snd e) ! j) (map nat (z_num (snd e)))).
          kernel_weight (cluster_kernel op (snd e) ! j) idx * elems w [x_idx (snd e) ! j]
            * v (roi_index op (snd e) idx))"
  proof (rule sum_list_cong_mem)
    fix e assume "e \<in> set (op_cl_info op)"
    moreover obtain c cl where e: "e = (c, cl)" by (cases e)
    ultimately have mem: "(c, cl) \<in> set (op_cl_info op)" by simp
    let ?V = "\<lambda>j. set (visited (cluster_kernel op cl ! j) (map nat (z_num cl)))"
    let ?K = "\<lambda>j idx. kernel_weight (cluster_kernel op cl ! j) idx * elems w [x_idx cl ! j]"
    have "(\<Sum>n\<in>?B. spread_part op (elems w) cl n * v n)
        = (\<Sum>n\<in>?B. \<Sum>j<length (x_idx cl). \<Sum>idx\<in>?V j.
              (if roi_index op cl idx = n then ?K j idx else 0) * v n)"
      by (simp add: spread_part_def sum_distrib_right)
    also have "\<dots> = (\<Sum>j<length (x_idx cl). \<Sum>n\<in>?B. \<Sum>idx\<in>?V j.
              (if roi_index op cl idx = n then ?K j idx else 0) * v n)"
      by (rule sum.swap)
    also have "\<dots> = (\<Sum>j<length (x_idx cl). \<Sum>idx\<in>?V j. \<Sum>n\<in>?B.
              (if roi_index op cl idx = n then ?K j idx else 0) * v n)"
      by (rule sum.cong [OF refl]) (rule sum.swap)
    also have "\<dots> = (\<Sum>j<length (x_idx cl). \<Sum>idx\<in>?V j. ?K j idx * v (roi_index op cl idx))"
    proof (intro sum.cong refl)
      fix j idx assume "j \<in> {..<length (x_idx cl)}" "idx \<in> ?V j"
      then have "in_box (map nat (z_num cl)) idx" using cluster_visited(1) [OF wf mem, of j] by auto
      then have "roi_index op cl idx \<in> ?B" using cluster_roi_index_in_box [OF wf mem] by simp
      then show "(\<Sum>n\<in>?B. (if roi_index op cl idx = n then ?K j idx else 0) * v n)
          = ?K j idx * v (roi_index op cl idx)"
        by (intro sum_pick_eq finite_in_box)
    qed
    finally show "(\<Sum>n\<in>?B. spread_part op (elems w) (snd e) n * v n)
        = (\<Sum>j<length (x_idx (snd e)).
        \<Sum>idx\<in>set (visited (cluster_kernel op (snd e) ! j) (map nat (z_num (snd e)))).
          kernel_weight (cluster_kernel op (snd e) ! j) idx * elems w [x_idx (snd e) ! j]
            * v (roi_index op (snd e) idx))"
      unfolding e snd_conv .
  qed
  finally show ?thesis by (simp add: pairing_def case_prod_unfold)
qed

lemma in_box_single: "in_box [M] idx = (\<exists>m<M. idx = [m])"
  by (auto simp: in_box_Cons)

lemma inner_adjoint:
  assumes wf: "wf_op op"
  shows "inner [dim_size op] w (elems (fst (adjoint_body op v))) = pairing op w (elems v)"
proof -
  let ?B = "{idx. in_box [dim_size op] idx}"
  have "inner [dim_size op] w (elems (fst (adjoint_body op v)))
      = (\<Sum>i\<in>?B. (\<Sum>e\<leftarrow>op_cl_info op. \<Sum>j<length (x_idx (snd e)).
              if [x_idx (snd e) ! j] = i then gather_point op (elems v) (snd e) j else 0) * w i)"
    unfolding inner_sum by (simp add: adjoint_elems [OF wf] case_prod_unfold mult.commute)
  also have "\<dots> = (\<Sum>e\<leftarrow>op_cl_info op. \<Sum>i\<in>?B. (\<Sum>j<length (x_idx (snd e)).
              if [x_idx (snd e) ! j] = i then gather_point op (elems v) (snd e) j else 0) * w i)"
    by (rule sum_list_sum_swap)
  also have "\<dots> = (\<Sum>e\<leftarrow>op_cl_info op. \<Sum>j<length (x_idx (snd e)).
        \<Sum>idx\<in>set (visited (cluster_kernel op (snd e) ! j) (map nat (z_num (snd e)))).
          kernel_weight (cluster_kernel op (snd e) ! j) idx * w [x_idx (snd e) ! j]
            * elems v (roi_index op (snd e) idx))"
  proof (rule sum_list_cong_mem)
    fix e assume "e \<in> set (op_cl_info op)"
    moreover obtain c cl where e: "e = (c, cl)" by (cases e)
    ultimately have mem: "(c, cl) \<in> set (op_cl_info op)" by simp
    have "(\<Sum>i\<in>?B. (\<Sum>j<length (x_idx cl).
              if [x_idx cl ! j] = i then gather_point op (elems v) cl j else 0) * w i)
        = (\<Sum>i\<in>?B. \<Sum>j<length (x_idx cl).
              (if [x_idx cl ! j] = i then gather_point op (elems v) cl j else 0) * w i)"
      by (simp add: sum_distrib_right)
    also have "\<dots> = (\<Sum>j<length (x_idx cl). \<Sum>i\<in>?B.
              (if [x_idx cl ! j] = i then gather_point op (elems v) cl j else 0) * w i)"
      by (rule sum.swap)
    also have "\<dots> = (\<Sum>j<length (x_idx cl). gather_point op (elems v) cl j * w [x_idx cl ! j])"
    proof (intro sum.cong refl)
      fix j assume "j \<in> {..<length (x_idx cl)}"
      then have "x_idx cl ! j \<in> set (x_idx cl)" by simp
      then have "x_idx cl ! j \<in> active_set op" using cluster_facts(2) [OF wf mem] by auto
      then have "[x_idx cl ! j] \<in> ?B" by (simp add: active_set_def in_box_single)
      then show "(\<Sum>i\<in>?B. (if [x_idx cl ! j] = i then gather_point op (elems v) cl j else 0) * w i)
          = gather_point op (elems v) cl j * w [x_idx cl ! j]"
        by (intro sum_pick_eq finite_in_box)
    qed
    also have "\<dots> = (\<Sum>j<length (x_idx cl).
        \<Sum>idx\<in>set (visited (cluster_kernel op cl ! j) (map nat (z_num cl))).
          kernel_weight (cluster_kernel op cl ! j) idx * w [x_idx cl ! j]
            * elems v (roi_index op cl idx))"
      unfolding gather_point_def sum_distrib_right
      by (intro sum.cong refl) (simp add: algebra_simps)
    finally show "(\<Sum>i\<in>?B. (\<Sum>j<length (x_idx (snd e)).
              if [x_idx (snd e) ! j] = i then gather_point op (elems v) (snd e) j else 0) * w i)
        = (\<Sum>j<length (x_idx (snd e)).
        \<Sum>idx\<in>set (visited (cluster_kernel op (snd e) ! j) (map nat (z_num (snd e)))).
          kernel_weight (cluster_kernel op (snd e) ! j) idx * w [x_idx (snd e) ! j]
            * elems v (roi_index op (snd e) idx))"
      unfolding e snd_conv .
  qed
  finally show ?thesis by (simp add: pairing_def case_prod_unfold)
qed

subsection \<open>The calls under the decorator\<close>

lemma fst_apply_op:
  "fst (apply_op prec op w) = astype (fst (apply_body op (astype w prec))) prec"
  by (simp add: apply_op_def enforce_precision_def case_prod_unfold Let_def)

lemma fst_adjoint_op:
  "fst (adjoint_op prec op v) = astype (fst (adjoint_body op (astype v prec))) prec"
  by (simp add: adjoint_op_def enforce_precision_def case_prod_unfold Let_def)

lemma elems_apply_op:
  "elems (fst (apply_op prec op w)) = elems (fst (apply_body op (astype w prec)))"
  by (simp add: fst_apply_op)

lemma elems_adjoint_op:
  "elems (fst (adjoint_op prec op v)) = elems (fst (adjoint_body op (astype v prec)))"
  by (simp add: fst_adjoint_op)

lemma shape_apply_op: "shape (fst (apply_op prec op w)) = codim_shape op"
  by (simp add: fst_apply_op apply_frame)

lemma shape_adjoint_op: "shape (fst (adjoint_op prec op v)) = [dim_size op]"
  by (simp add: fst_adjoint_op adjoint_frame)

text \<open>
  C1.  For a constructed operator, weights \<open>w\<close> of shape (M,) and lattice values \<open>v\<close> of
  shape (N1,...,ND): the inner product of \<open>apply(w)\<close> with \<open>v\<close> equals the inner product of
  \<open>w\<close> with \<open>adjoint(v)\<close>.  Both are the same sum over clusters, member points and visited
  sub-grid indices of \<open>kernel weight * w[m] * v[n]\<close> (lemmas \<open>inner_apply\<close>,
  \<open>inner_adjoint\<close>).
\<close>

theorem apply_adjoint_inner:
  assumes "init env x z kern ew kw = Inr op"
    and "shape w = [dim_size op]" and "shape v = codim_shape op"
  shows "inner (codim_shape op) (elems (fst (apply_op prec op w))) (elems v) =
         inner [dim_size op] (elems w) (elems (fst (adjoint_op prec op v)))"
proof -
  have wf: "wf_op op" using assms(1) by (rule init_wf)
  show ?thesis
    by (simp only: elems_apply_op elems_adjoint_op inner_apply [OF wf] inner_adjoint [OF wf]
          elems_astype)
qed

lemma inactive_not_member:
  assumes wf: "wf_op op" and cl: "(c, cl) \<in> set (op_cl_info op)" and m: "m \<notin> active_set op"
  shows "m \<notin> set (x_idx cl)"
  using cluster_facts(2) [OF wf cl] m by auto


text \<open>
  C10.  The output of \<open>adjoint\<close> at the index of an inactive point is zero: the buffer starts
  at zero and interpolating a cluster leaves the slot of every index outside the cluster as
  it was.
\<close>

theorem adjoint_inactive_zero:
  assumes "init env x z kern ew kw = Inr op" and "m < dim_size op" and "m \<notin> active_set op"
  shows "elems (fst (adjoint_op prec op v)) [m] = 0 \<and>
         (\<forall>e\<in>set (op_cl_info op). \<forall>out. elems (interpolate op v out (snd e)) [m] = elems out [m])"
proof -
  have wf: "wf_op op" using assms(1) by (rule init_wf)
  have nm: "m \<notin> set (x_idx (snd e))" if "e \<in> set (op_cl_info op)" for e
    using inactive_not_member [OF wf _ assms(3), of "fst e" "snd e"] that by simp
  have "(\<Sum>j<length (x_idx (snd e)).
            if [x_idx (snd e) ! j] = [m] then gather_point op (elems v) (snd e) j else 0) = 0"
    if "e \<in> set (op_cl_info op)" for e
  proof (rule sum.neutral, rule ballI)
    fix j assume "j \<in> {..<length (x_idx (snd e))}"
    then have "x_idx (snd e) ! j \<in> set (x_idx (snd e))" by simp
    then have "x_idx (snd e) ! j \<noteq> m" using nm [OF that] by auto
    then show "(if [x_idx (snd e) ! j] = [m] then gather_point op (elems v) (snd e) j else 0) = 0"
      by simp
  qed
  then have "(\<Sum>e\<leftarrow>op_cl_info op. \<Sum>j<length (x_idx (snd e)).
            if [x_idx (snd e) ! j] = [m] then gather_point op (elems v) (snd e) j else 0)
      = (\<Sum>e\<leftarrow>op_cl_info op. 0)"
    by (intro sum_list_cong_mem)
  then have "elems (fst (adjoint_op prec op v)) [m] = 0"
    unfolding elems_adjoint_op adjoint_elems [OF wf] elems_astype
    by (simp add: case_prod_unfold)
  moreover have "elems (interpolate op v out (snd e)) [m] = elems out [m]"
    if "e \<in> set (op_cl_info op)" for e out
    using nm [OF that] by (intro interpolate_untouched) auto
  ultimately show ?thesis by blast
qed

lemma ex_cl_mem: "(0, \<lparr>x_idx = [0, 1], z_anchor = [0], z_num = [5]\<rparr>) \<in> set (op_cl_info ex_op)"
  by (simp add: ex_cl_info)

theorem adjoint_inactive_zero_witness:
  "init ex_env ex_x ex_z [tri] True ex_kw = Inr ex_op \<and> (2::nat) < dim_size ex_op \<and>
   2 \<notin> active_set ex_op \<and> elems (fst (adjoint_op Double ex_op ex_v)) [2] = 0"
proof -
  have a: "(2::nat) < dim_size ex_op" by (simp add: dim_size_def ex_op_def newaxis_def ex_x_def)
  have b: "2 \<notin> active_set ex_op" by (simp add: ex_active)
  from adjoint_inactive_zero [OF ex_init a b, where v = ex_v and prec = Double] ex_init a b show ?thesis by blast
qed

theorem apply_adjoint_inner_witness:
  "init ex_env ex_x ex_z [tri] True ex_kw = Inr ex_op \<and>
   shape ex_w = [dim_size ex_op] \<and> shape ex_v = codim_shape ex_op \<and>
   inner (codim_shape ex_op) (elems (fst (apply_op Double ex_op ex_w))) (elems ex_v) = 5 \<and>
   inner [dim_size ex_op] (elems ex_w) (elems (fst (adjoint_op Double ex_op ex_v))) = 5"
proof -
  have a: "shape ex_w = [dim_size ex_op]"
    by (simp add: dim_size_def ex_op_def newaxis_def ex_x_def ex_w_def)
  have b: "shape ex_v = codim_shape ex_op"
    by (simp add: codim_shape_def ex_op_def ex_z_def ex_v_def)
  have c: "inner (codim_shape ex_op) (elems (fst (apply_op Double ex_op ex_w))) (elems ex_v) = 5"
    by code_simp
  from apply_adjoint_inner [OF ex_init a b] ex_init a b c show ?thesis by simp
qed








subsection \<open>The dense matrix\<close>

lemma asarray_shape: "shape (asarray op dt) = codim_shape op @ [dim_size op]"
  by (simp add: asarray_def Let_def)

lemma lattice_full:
  assumes "d < length (num z)"
  shows "lattice z (replicate (length (num z)) None) ! d = map (node z d) [0..<nat (num z ! d)]"
  using assms by (simp add: lattice_def Let_def apply_slice_def node_def)

lemma asarray_elems:
  assumes n: "in_box (codim_shape op) n"
  shows "elems (asarray op dt) (n @ [m]) = weight op m n"
proof -
  let ?D = "codim_rank op"
  have len: "length n = ?D" using n by (simp add: in_box_def codim_shape_def codim_rank_def)
  have "call (op_kernel op ! d)
          (lattice (op_z op) (replicate ?D None) ! d ! ((n @ [m]) ! d) - rows_of (op_x op) ! ((n @ [m]) ! ?D) ! d)
      = call (op_kernel op ! d) (node (op_z op) d (n ! d) - rows_of (op_x op) ! m ! d)"
    if "d < ?D" for d
  proof -
    have nd: "n ! d < nat (num (op_z op) ! d)"
      using n that by (simp add: in_box_def codim_shape_def codim_rank_def)
    have "lattice (op_z op) (replicate ?D None) ! d ! (n ! d) = node (op_z op) d (n ! d)"
      using that nd lattice_full [of d "op_z op"] by (simp add: codim_rank_def)
    then show ?thesis using that len by (simp add: nth_append)
  qed
  then show ?thesis
    by (simp add: asarray_def Let_def fold_prod weight_def)
qed

lemma dense_matvec_weight:
  assumes "in_box (codim_shape op) n"
  shows "dense_matvec (asarray op dt) w n = (\<Sum>m<dim_size op. weight op m n * w [m])"
  by (simp add: dense_matvec_def asarray_shape asarray_elems [OF assms] sum_list_upt_sum)

lemma dense_rmatvec_weight:
  "dense_rmatvec (asarray op dt) v [m] = (\<Sum>n\<in>{n. in_box (codim_shape op) n}. weight op m n * v n)"
proof -
  have "dense_rmatvec (asarray op dt) v [m]
      = (\<Sum>n\<in>{n. in_box (codim_shape op) n}. elems (asarray op dt) (n @ [m]) * v n)"
    by (simp add: dense_rmatvec_def asarray_shape sum_list_ndindex)
  also have "\<dots> = (\<Sum>n\<in>{n. in_box (codim_shape op) n}. weight op m n * v n)"
    by (intro sum.cong refl) (simp add: asarray_elems)
  finally show ?thesis .
qed

subsection \<open>Where the weight vanishes\<close>

lemma weight_zero_axis:
  assumes d: "d < codim_rank op"
    and z: "call (op_kernel op ! d) (node (op_z op) d (n ! d) - rows_of (op_x op) ! m ! d) = 0"
  shows "weight op m n = 0"
  unfolding weight_def using d z by (intro prod_zero) auto

lemma weight_inactive:
  assumes wf: "wf_op op" and van: "\<And>k. k \<in> set (op_kernel op) \<Longrightarrow> vanishes_outside_support k"
    and m: "m < dim_size op" and na: "m \<notin> active_set op" and n: "in_box (codim_shape op) n"
  shows "weight op m n = 0"
proof -
  let ?D = "codim_rank op" and ?p = "rows_of (op_x op) ! m"
  have lp: "length ?p = ?D" and lk: "length (op_kernel op) = ?D"
    and ok: "\<And>d. d < ?D \<Longrightarrow> lattice_axis_ok (start (op_z op) ! d) (stop (op_z op) ! d) (num (op_z op) ! d)"
    using wf m by (simp_all add: wf_op_def Let_def dim_size_def)
  from na m lp lk obtain d where d: "d < ?D"
    and out: "?p ! d < start (op_z op) ! d - support (op_kernel op ! d) \<or>
              stop (op_z op) ! d + support (op_kernel op ! d) < ?p ! d"
    by (auto simp: active_set_def is_active_iff not_le)
  have nd: "int (n ! d) < num (op_z op) ! d"
    using n d by (auto simp: in_box_def codim_shape_def codim_rank_def)
  note nr = node_range [OF ok [OF d] nd]
  have far: "\<bar>node (op_z op) d (n ! d) - ?p ! d\<bar> > support (op_kernel op ! d)"
    using out nr by linarith
  have "vanishes_outside_support (op_kernel op ! d)" using van d lk by simp
  then have "call (op_kernel op ! d) (node (op_z op) d (n ! d) - ?p ! d) = 0"
    using far by (simp add: vanishes_outside_support_def)
  then show ?thesis by (rule weight_zero_axis [OF d])
qed

lemma roi_index_image:
  assumes wf: "wf_op op" and cl: "(c, cl) \<in> set (op_cl_info op)"
    and n: "length n = codim_rank op"
    and inside: "\<And>d. d < codim_rank op \<Longrightarrow>
        z_anchor cl ! d \<le> int (n ! d) \<and> int (n ! d) < z_anchor cl ! d + z_num cl ! d"
  shows "n \<in> roi_index op cl ` {idx. in_box (map nat (z_num cl)) idx}"
proof -
  note cf = cluster_facts [OF wf cl]
  define idx where "idx = map (\<lambda>d. n ! d - nat (z_anchor cl ! d)) [0..<codim_rank op]"
  have sub: "n ! d - nat (z_anchor cl ! d) < nat (z_num cl ! d) \<and>
             nat (z_anchor cl ! d) + (n ! d - nat (z_anchor cl ! d)) = n ! d"
    if "d < codim_rank op" for d
    using inside [OF that] cf(7) [OF that] by linarith
  have ib: "in_box (map nat (z_num cl)) idx"
    using sub cf(4) by (simp add: in_box_def idx_def)
  have "roi_index op cl idx = n"
    unfolding cluster_roi_index [OF wf cl ib]
    using sub n by (auto simp: idx_def intro!: nth_equalityI)
  then show ?thesis using ib by blast
qed

lemma weight_outside_window:
  assumes wf: "wf_op op" and van: "\<And>k. k \<in> set (op_kernel op) \<Longrightarrow> vanishes_outside_support k"
    and cl: "(c, cl) \<in> set (op_cl_info op)" and m: "m \<in> set (x_idx cl)"
    and n: "in_box (codim_shape op) n"
    and out: "n \<notin> roi_index op cl ` {idx. in_box (map nat (z_num cl)) idx}"
  shows "weight op m n = 0"
proof -
  let ?D = "codim_rank op"
  have lk: "length (op_kernel op) = ?D" using wf by (simp add: wf_op_def Let_def)
  have ln: "length n = ?D" using n by (simp add: in_box_def codim_shape_def codim_rank_def)
  from out roi_index_image [OF wf cl ln] obtain d where d: "d < ?D"
    and nin: "\<not> (z_anchor cl ! d \<le> int (n ! d) \<and> int (n ! d) < z_anchor cl ! d + z_num cl ! d)"
    by blast
  have nd: "int (n ! d) < num (op_z op) ! d"
    using n d by (auto simp: in_box_def codim_shape_def codim_rank_def)
  have far: "\<not> \<bar>node (op_z op) d (n ! d) - rows_of (op_x op) ! m ! d\<bar> \<le> support (op_kernel op ! d)"
    using cluster_facts(8) [OF wf cl d m nd] nin by blast
  have "vanishes_outside_support (op_kernel op ! d)" using van d lk by simp
  then have "call (op_kernel op ! d) (node (op_z op) d (n ! d) - rows_of (op_x op) ! m ! d) = 0"
    using far by (simp add: vanishes_outside_support_def not_le)
  then show ?thesis by (rule weight_zero_axis [OF d])
qed

subsection \<open>The fast path against the dense matrix\<close>

lemma visited_to_box:
  assumes wf: "wf_op op" and cl: "(c, cl) \<in> set (op_cl_info op)" and j: "j < length (x_idx cl)"
    and f: "\<And>idx. kernel_weight (cluster_kernel op cl ! j) idx = 0 \<Longrightarrow> f idx = (0::real)"
  shows "(\<Sum>idx\<in>set (visited (cluster_kernel op cl ! j) (map nat (z_num cl))). f idx)
       = (\<Sum>idx\<in>{idx. in_box (map nat (z_num cl)) idx}. f idx)"
proof (rule sum.mono_neutral_left)
  show "finite {idx. in_box (map nat (z_num cl)) idx}" by (rule finite_in_box)
  show "set (visited (cluster_kernel op cl ! j) (map nat (z_num cl))) \<subseteq> {idx. in_box (map nat (z_num cl)) idx}"
    by (rule cluster_visited(1) [OF wf cl j])
  show "\<forall>i\<in>{idx. in_box (map nat (z_num cl)) idx} -
          set (visited (cluster_kernel op cl ! j) (map nat (z_num cl))). f i = 0"
    using cluster_visited(2) [OF wf cl j] f by auto
qed

lemma spread_part_weight:
  assumes wf: "wf_op op" and van: "\<And>k. k \<in> set (op_kernel op) \<Longrightarrow> vanishes_outside_support k"
    and cl: "(c, cl) \<in> set (op_cl_info op)" and n: "in_box (codim_shape op) n"
  shows "spread_part op w cl n = (\<Sum>j<length (x_idx cl). weight op (x_idx cl ! j) n * w [x_idx cl ! j])"
  unfolding spread_part_def
proof (intro sum.cong refl)
  fix j assume "j \<in> {..<length (x_idx cl)}"
  then have j: "j < length (x_idx cl)" by simp
  let ?B = "{idx. in_box (map nat (z_num cl)) idx}"
  let ?K = "kernel_weight (cluster_kernel op cl ! j)"
  let ?m = "x_idx cl ! j"
  let ?t = "weight op ?m n * w [?m]"
  have "(\<Sum>idx\<in>set (visited (cluster_kernel op cl ! j) (map nat (z_num cl))).
          if roi_index op cl idx = n then ?K idx * w [?m] else 0)
      = (\<Sum>idx\<in>?B. if roi_index op cl idx = n then ?K idx * w [?m] else 0)"
    by (rule visited_to_box [OF wf cl j]) simp
  also have "\<dots> = (\<Sum>idx\<in>?B. if roi_index op cl idx = n then ?t else 0)"
  proof (intro sum.cong refl)
    fix idx assume "idx \<in> ?B"
    then have "?K idx = weight op ?m (roi_index op cl idx)"
      using cluster_kernel_weight [OF wf cl j] by simp
    then show "(if roi_index op cl idx = n then ?K idx * w [?m] else 0)
        = (if roi_index op cl idx = n then ?t else 0)" by simp
  qed
  also have "\<dots> = ?t"
  proof (cases "n \<in> roi_index op cl ` ?B")
    case True
    then obtain i0 where i0: "i0 \<in> ?B" "roi_index op cl i0 = n" by auto
    have "(roi_index op cl idx = n) = (idx = i0)" if "idx \<in> ?B" for idx
      using inj_onD [OF cluster_roi_index_inj [OF wf cl] _ that i0(1)] i0(2) by auto
    then have "(\<Sum>idx\<in>?B. if roi_index op cl idx = n then ?t else 0)
        = (\<Sum>idx\<in>?B. if idx = i0 then ?t else 0)"
      by (intro sum.cong refl) simp
    also have "\<dots> = ?t" using i0(1) finite_in_box [of "map nat (z_num cl)"] by (simp add: sum.delta)
    finally show ?thesis .
  next
    case False
    have m: "?m \<in> set (x_idx cl)" using j by simp
    have w0: "weight op ?m n = 0" by (rule weight_outside_window [OF wf van cl m n False])
    have "(\<Sum>idx\<in>?B. if roi_index op cl idx = n then ?t else 0) = (\<Sum>idx\<in>?B. 0)"
      using False by (intro sum.cong refl) auto
    then show ?thesis using w0 by simp
  qed
  finally show "(\<Sum>idx\<in>set (visited (cluster_kernel op cl ! j) (map nat (z_num cl))).
          if roi_index op cl idx = n then ?K idx * w [?m] else 0) = ?t" .
qed

lemma gather_point_weight:
  assumes wf: "wf_op op" and van: "\<And>k. k \<in> set (op_kernel op) \<Longrightarrow> vanishes_outside_support k"
    and cl: "(c, cl) \<in> set (op_cl_info op)" and j: "j < length (x_idx cl)"
  shows "gather_point op v cl j =
           (\<Sum>n\<in>{n. in_box (codim_shape op) n}. weight op (x_idx cl ! j) n * v n)"
proof -
  let ?B = "{idx. in_box (map nat (z_num cl)) idx}"
  let ?N = "{n. in_box (codim_shape op) n}"
  let ?K = "kernel_weight (cluster_kernel op cl ! j)"
  let ?m = "x_idx cl ! j"
  let ?g = "roi_index op cl"
  have m: "?m \<in> set (x_idx cl)" using j by simp
  have "gather_point op v cl j = (\<Sum>idx\<in>?B. ?K idx * v (?g idx))"
    unfolding gather_point_def by (rule visited_to_box [OF wf cl j]) simp
  also have "\<dots> = (\<Sum>idx\<in>?B. weight op ?m (?g idx) * v (?g idx))"
    using cluster_kernel_weight [OF wf cl j] by (intro sum.cong refl) simp
  also have "\<dots> = (\<Sum>n\<in>?g ` ?B. weight op ?m n * v n)"
    using sum.reindex [OF cluster_roi_index_inj [OF wf cl], of "\<lambda>n. weight op ?m n * v n"]
    by (simp add: comp_def)
  also have "\<dots> = (\<Sum>n\<in>?N. weight op ?m n * v n)"
  proof (rule sum.mono_neutral_left)
    show "finite ?N" by (rule finite_in_box)
    show "?g ` ?B \<subseteq> ?N" using cluster_roi_index_in_box [OF wf cl] by auto
    show "\<forall>n\<in>?N - ?g ` ?B. weight op ?m n * v n = 0"
      using weight_outside_window [OF wf van cl m] by auto
  qed
  finally show ?thesis .
qed

lemma sum_clusters:
  assumes wf: "wf_op op"
  shows "(\<Sum>e\<leftarrow>op_cl_info op. \<Sum>j<length (x_idx (snd e)). f (x_idx (snd e) ! j))
       = (\<Sum>m\<in>active_set op. (f m :: real))"
proof -
  have nth: "(\<Sum>j<length xs. f (xs ! j)) = (\<Sum>m\<leftarrow>xs. f m)" for xs :: "nat list"
    using sum_list_sum_nth [of "map f xs"] by (simp add: atLeast0LessThan)
  have cc: "(\<Sum>e\<leftarrow>es. \<Sum>m\<leftarrow>x_idx (snd e). f m)
      = (\<Sum>m\<leftarrow>concat (map (\<lambda>e. x_idx (snd e)) es). f m)" for es :: "(nat \<times> cluster_info) list"
    by (induction es) auto
  have d: "distinct (concat (map (\<lambda>e. x_idx (snd e)) (op_cl_info op)))"
    and s: "set (concat (map (\<lambda>e. x_idx (snd e)) (op_cl_info op))) = active_set op"
    using info_x_idx_distinct [OF wf] by (simp_all add: case_prod_unfold)
  show ?thesis
    unfolding nth cc sum_list_distinct_conv_sum_set [OF d] s ..
qed

lemma active_below: "active_set op \<subseteq> {..<dim_size op}"
  by (auto simp: active_set_def)

lemma apply_dense:
  assumes wf: "wf_op op" and van: "\<And>k. k \<in> set (op_kernel op) \<Longrightarrow> vanishes_outside_support k"
    and n: "in_box (codim_shape op) n"
  shows "elems (fst (apply_body op w)) n = dense_matvec (asarray op dt) (elems w) n"
proof -
  let ?f = "\<lambda>m. weight op m n * elems w [m]"
  have "elems (fst (apply_body op w)) n
      = (\<Sum>e\<leftarrow>op_cl_info op. spread_part op (elems w) (snd e) n)"
    by (simp add: apply_elems [OF wf] case_prod_unfold)
  also have "\<dots> = (\<Sum>e\<leftarrow>op_cl_info op. \<Sum>j<length (x_idx (snd e)). ?f (x_idx (snd e) ! j))"
  proof (rule sum_list_cong_mem)
    fix e assume "e \<in> set (op_cl_info op)"
    then have mem: "(fst e, snd e) \<in> set (op_cl_info op)" by simp
    show "spread_part op (elems w) (snd e) n = (\<Sum>j<length (x_idx (snd e)). ?f (x_idx (snd e) ! j))"
      by (rule spread_part_weight [OF wf van mem n])
  qed
  also have "\<dots> = (\<Sum>m\<in>active_set op. ?f m)" by (rule sum_clusters [OF wf])
  also have "\<dots> = (\<Sum>m<dim_size op. ?f m)"
  proof (rule sum.mono_neutral_left)
    show "finite {..<dim_size op}" by simp
    show "active_set op \<subseteq> {..<dim_size op}" by (rule active_below)
    show "\<forall>m\<in>{..<dim_size op} - active_set op. ?f m = 0"
      using weight_inactive [OF wf van _ _ n] by auto
  qed
  finally show ?thesis by (simp add: dense_matvec_weight [OF n])
qed

lemma adjoint_dense:
  assumes wf: "wf_op op" and van: "\<And>k. k \<in> set (op_kernel op) \<Longrightarrow> vanishes_outside_support k"
    and m: "m < dim_size op"
  shows "elems (fst (adjoint_body op v)) [m] = dense_rmatvec (asarray op dt) (elems v) [m]"
proof -
  let ?R = "\<lambda>m. \<Sum>n\<in>{n. in_box (codim_shape op) n}. weight op m n * elems v n"
  let ?f = "\<lambda>m'. if m' = m then ?R m' else 0"
  have "elems (fst (adjoint_body op v)) [m]
      = (\<Sum>e\<leftarrow>op_cl_info op. \<Sum>j<length (x_idx (snd e)).
            if [x_idx (snd e) ! j] = [m] then gather_point op (elems v) (snd e) j else 0)"
    by (simp add: adjoint_elems [OF wf] case_prod_unfold)
  also have "\<dots> = (\<Sum>e\<leftarrow>op_cl_info op. \<Sum>j<length (x_idx (snd e)). ?f (x_idx (snd e) ! j))"
  proof (rule sum_list_cong_mem)
    fix e assume "e \<in> set (op_cl_info op)"
    then have mem: "(fst e, snd e) \<in> set (op_cl_info op)" by simp
    show "(\<Sum>j<length (x_idx (snd e)).
            if [x_idx (snd e) ! j] = [m] then gather_point op (elems v) (snd e) j else 0)
        = (\<Sum>j<length (x_idx (snd e)). ?f (x_idx (snd e) ! j))"
    proof (intro sum.cong refl)
      fix j assume "j \<in> {..<length (x_idx (snd e))}"
      then have j: "j < length (x_idx (snd e))" by simp
      show "(if [x_idx (snd e) ! j] = [m] then gather_point op (elems v) (snd e) j else 0)
          = ?f (x_idx (snd e) ! j)"
        using gather_point_weight [OF wf van mem j, of "elems v"] by simp
    qed
  qed
  also have "\<dots> = (\<Sum>m'\<in>active_set op. ?f m')" by (rule sum_clusters [OF wf])
  also have "\<dots> = (if m \<in> active_set op then ?R m else 0)"
  proof -
    have "finite (active_set op)" using finite_subset [OF active_below] by simp
    then show ?thesis by (simp add: sum.delta)
  qed
  also have "\<dots> = ?R m"
  proof (cases "m \<in> active_set op")
    case True
    then show ?thesis by simp
  next
    case False
    have "?R m = (\<Sum>n\<in>{n. in_box (codim_shape op) n}. 0)"
      using weight_inactive [OF wf van m False] by (intro sum.cong refl) simp
    then show ?thesis using False by simp
  qed
  finally show ?thesis by (simp add: dense_rmatvec_weight)
qed

text \<open>
  C2 (amended).  For a constructed operator whose kernels vanish outside their support:
  the array returned by \<open>asarray\<close> has shape (N1,...,ND, M) and entries
  \<open>prod_d phi_d(z[n]_d - x[m]_d)\<close>; \<open>apply(w)\<close> is that array contracted with \<open>w\<close> over its
  last axis, and \<open>adjoint(v)\<close> is that array contracted with \<open>v\<close> over its first \<open>D\<close> axes.
\<close>

theorem dense_equivalence:
  assumes "init env x z kern ew kw = Inr op"
    and "\<forall>k\<in>set (op_kernel op). vanishes_outside_support k"
    and "shape w = [dim_size op]" and "shape v = codim_shape op"
  shows "shape (asarray op dt) = codim_shape op @ [dim_size op] \<and>
         (\<forall>n m. in_box (codim_shape op) n \<and> m < dim_size op \<longrightarrow>
            elems (asarray op dt) (n @ [m]) = weight op m n) \<and>
         shape (fst (apply_op prec op w)) = codim_shape op \<and>
         (\<forall>n. in_box (codim_shape op) n \<longrightarrow>
            elems (fst (apply_op prec op w)) n = dense_matvec (asarray op dt) (elems w) n) \<and>
         shape (fst (adjoint_op prec op v)) = [dim_size op] \<and>
         (\<forall>m<dim_size op.
            elems (fst (adjoint_op prec op v)) [m] = dense_rmatvec (asarray op dt) (elems v) [m])"
proof -
  have wf: "wf_op op" using assms(1) by (rule init_wf)
  have van: "\<And>k. k \<in> set (op_kernel op) \<Longrightarrow> vanishes_outside_support k" using assms(2) by blast
  show ?thesis
    unfolding elems_apply_op elems_adjoint_op shape_apply_op shape_adjoint_op
    using asarray_shape [of op dt] asarray_elems [of op _ dt]
      apply_dense [OF wf van, of _ "astype w prec" dt] adjoint_dense [OF wf van, of _ "astype v prec" dt]
    unfolding elems_astype
    by blast
qed

lemma tri_vanishes: "vanishes_outside_support tri"
  by (simp add: vanishes_outside_support_def tri_def)

theorem dense_equivalence_witness:
  "init ex_env ex_x ex_z [tri] True ex_kw = Inr ex_op \<and> vanishes_outside_support tri \<and>
   shape ex_w = [dim_size ex_op] \<and> shape ex_v = codim_shape ex_op \<and>
   shape (asarray ex_op Double) = [5, 3] \<and>
   in_box (codim_shape ex_op) [1] \<and> (0::nat) < dim_size ex_op \<and>
   elems (asarray ex_op Double) [1, 0] = 1 / 2 \<and>
   elems (fst (apply_op Double ex_op ex_w)) [1] = dense_matvec (asarray ex_op Double) (elems ex_w) [1] \<and>
   dense_matvec (asarray ex_op Double) (elems ex_w) [1] = 1 / 2 \<and>
   elems (fst (adjoint_op Double ex_op ex_v)) [0] = dense_rmatvec (asarray ex_op Double) (elems ex_v) [0] \<and>
   dense_rmatvec (asarray ex_op Double) (elems ex_v) [0] = 3 / 2"
proof -
  have k: "\<forall>k\<in>set (op_kernel ex_op). vanishes_outside_support k"
    by (simp add: ex_op_def tri_vanishes)
  have a: "shape ex_w = [dim_size ex_op]"
    by (simp add: dim_size_def ex_op_def newaxis_def ex_x_def ex_w_def)
  have b: "shape ex_v = codim_shape ex_op"
    by (simp add: codim_shape_def ex_op_def ex_z_def ex_v_def)
  have c: "in_box (codim_shape ex_op) [1]"
    by (simp add: codim_shape_def ex_op_def ex_z_def in_box_def)
  have d: "(0::nat) < dim_size ex_op" by (simp add: dim_size_def ex_op_def newaxis_def ex_x_def)
  have sh: "codim_shape ex_op @ [dim_size ex_op] = [5, 3]"
    by (simp add: codim_shape_def dim_size_def ex_op_def ex_z_def newaxis_def ex_x_def)
  have e1: "elems (asarray ex_op Double) [1, 0] = 1 / 2" by code_simp
  have e2: "dense_matvec (asarray ex_op Double) (elems ex_w) [1] = 1 / 2" by code_simp
  have e3: "dense_rmatvec (asarray ex_op Double) (elems ex_v) [0] = 3 / 2" by code_simp
  from dense_equivalence [OF ex_init k a b, where dt = Double and prec = Double] c d
  have "shape (asarray ex_op Double) = codim_shape ex_op @ [dim_size ex_op] \<and>
      elems (fst (apply_op Double ex_op ex_w)) [1] = dense_matvec (asarray ex_op Double) (elems ex_w) [1] \<and>
      elems (fst (adjoint_op Double ex_op ex_v)) [0] = dense_rmatvec (asarray ex_op Double) (elems ex_v) [0]"
    by blast
  then show ?thesis using ex_init tri_vanishes a b c d sh e1 e2 e3 by simp
qed

lemma ex_flat_init: "init ex_env ex_x_far ex_z [flat] True ex_kw = Inr ex_op_flat"
  by (simp add: init_def ex_env_def coerce_def astype_def points_2d_def ndim_def ex_x_far_def ex_z_def flat_def ex_kw_def ex_op_flat_def
      newaxis_def as_seq_def broadcast_def canonical_kwargs_def lattice_axis_ok_def Let_def)

lemma ex_flat_cl_info: "op_cl_info ex_op_flat = []"
  unfolding ex_op_flat_def by simp code_simp

text \<open>
  C2 as stated fails: for \<open>D = 2\<close>, a 2 by 3 lattice and one point, the array returned by
  \<open>asarray\<close> has shape (2, 3, 1), not (6, 1).
\<close>

theorem dense_shape_counterexample:
  "map_sum id (\<lambda>op. shape (asarray op Double)) (init ex_env ex_x2 ex_z2 [tri] True ex_kw) = Inr [2, 3, 1] \<and>
   [2, 3, 1] \<noteq> [2 * 3, 1::nat] \<and>
   init ex_env ex_x_far ex_z [flat] True ex_kw = Inr ex_op_flat \<and>
   elems (fst (apply_op Double ex_op_flat ex_w1)) [0] = 0 \<and>
   dense_matvec (asarray ex_op_flat Double) (elems ex_w1) [0] = 1"
proof -
  have s: "map_sum id (\<lambda>op. shape (asarray op Double)) (init ex_env ex_x2 ex_z2 [tri] True ex_kw) = Inr [2, 3, 1]"
    by (simp add: init_def ex_env_def coerce_def astype_def points_2d_def ndim_def ex_x2_def ex_z2_def tri_def ex_kw_def
      as_seq_def broadcast_def canonical_kwargs_def lattice_axis_ok_def Let_def
      asarray_shape codim_shape_def dim_size_def eval_nat_numeral)
  have a: "elems (fst (apply_op Double ex_op_flat ex_w1)) [0] = 0"
    by (simp add: fst_apply_op apply_body_def ex_flat_cl_info case_prod_unfold zeros_def)
  have d: "dense_matvec (asarray ex_op_flat Double) (elems ex_w1) [0] = 1" by code_simp
  show ?thesis using s a d ex_flat_init by simp
qed

end
